theory Spec2Isabelle
  imports Main "HOL-Library.AList"
begin

section \<open>Values of the host language\<close>

text \<open>
  Fields typed \<open>unknown\<close> or \<open>Record<string, unknown>\<close> in the sources hold arbitrary
  JavaScript values. Numbers are restricted to the integers; an object is the list of its
  own properties in insertion order.
\<close>

datatype jsval =
    JUndefined
  | JNull
  | JBool bool
  | JNum int
  | JStr string
  | JArr "jsval list"
  | JObj "(string \<times> jsval) list"

text \<open>The truthiness test that \<open>&&\<close> and \<open>if\<close> apply to a value.\<close>

fun truthy :: "jsval \<Rightarrow> bool" where
  "truthy JUndefined = False"
| "truthy JNull = False"
| "truthy (JBool b) = b"
| "truthy (JNum n) = (n \<noteq> 0)"
| "truthy (JStr s) = (s \<noteq> [])"
| "truthy (JArr vs) = True"
| "truthy (JObj kvs) = True"

section \<open>Exceptions\<close>

text \<open>
  A thrown value is either an \<open>Error\<close> instance, of which the sources read only the
  message, or some other value. A call that may throw returns \<open>Throw e\<close> in place of
  its value.
\<close>

datatype exn = Error string | NonError jsval

datatype 'a res = Ok 'a | Throw exn

text \<open>\<open>error instanceof Error ? error.message : fallback\<close>\<close>

fun messageOr :: "string \<Rightarrow> exn \<Rightarrow> string" where
  "messageOr fallback (Error m) = m"
| "messageOr fallback (NonError v) = fallback"

section \<open>Strings\<close>

text \<open>The decimal digits of a natural number, as a template literal renders it.\<close>

definition digit :: "nat \<Rightarrow> char" where
  "digit d = ''0123456789'' ! d"

fun show_nat :: "nat \<Rightarrow> string" where
  "show_nat n = (if n < 10 then [digit n] else show_nat (n div 10) @ [digit (n mod 10)])"

declare show_nat.simps [simp del]

text \<open>
  A string is the sequence of the bytes of its UTF-8 encoding. \<open>asciiLower\<close> maps the
  letters A to Z to a to z and keeps every other byte: this is what
  \<open>String.prototype.toLowerCase\<close> returns on a text of ASCII characters. On other texts
  \<open>toLowerCase\<close> applies the case mapping of Unicode, which is a parameter of the model
  (a field of the runtime below).
\<close>

definition lowerChar :: "char \<Rightarrow> char" where
  "lowerChar c =
     (case map_of (zip ''ABCDEFGHIJKLMNOPQRSTUVWXYZ'' ''abcdefghijklmnopqrstuvwxyz'') c of
        None \<Rightarrow> c
      | Some l \<Rightarrow> l)"

definition asciiLower :: "string \<Rightarrow> string" where
  "asciiLower s = map lowerChar s"



text \<open>
  \<open>Array.prototype.join\<close> applied to values: \<open>undefined\<close> and \<open>null\<close> elements give the
  empty string, the others their \<open>String\<close> conversion. A number is printed with all its
  digits, as JavaScript prints an integer of absolute value below \<open>10\<^sup>2\<^sup>1\<close>.
\<close>

fun intercalate :: "string \<Rightarrow> string list \<Rightarrow> string" where
  "intercalate sep [] = []"
| "intercalate sep [x] = x"
| "intercalate sep (x # y # ys) = x @ sep @ intercalate sep (y # ys)"

fun jsToString :: "jsval \<Rightarrow> string" where
  "jsToString JUndefined = ''undefined''"
| "jsToString JNull = ''null''"
| "jsToString (JBool b) = (if b then ''true'' else ''false'')"
| "jsToString (JNum n) = (if n < 0 then ''-'' @ show_nat (nat (- n)) else show_nat (nat n))"
| "jsToString (JStr s) = s"
| "jsToString (JArr vs) =
     intercalate '','' (map (\<lambda>v. if v = JUndefined \<or> v = JNull then [] else jsToString v) vs)"
| "jsToString (JObj kvs) = ''[object Object]''"

definition joinValues :: "string \<Rightarrow> jsval list \<Rightarrow> string" where
  "joinValues sep vs =
     intercalate sep (map (\<lambda>v. if v = JUndefined \<or> v = JNull then [] else jsToString v) vs)"

text \<open>
  Reading a property of a value: a \<open>TypeError\<close> on \<open>null\<close> and \<open>undefined\<close>, the property
  of an object, and \<open>undefined\<close> on the other values for the property names read here.
  The message of the \<open>TypeError\<close> is chosen by the JavaScript engine: it is the argument
  \<open>message\<close>, applied to the value read and the name of the property.
\<close>

fun getProp :: "(jsval \<Rightarrow> string \<Rightarrow> string) \<Rightarrow> jsval \<Rightarrow> string \<Rightarrow> jsval res" where
  "getProp message JUndefined k = Throw (Error (message JUndefined k))"
| "getProp message JNull k = Throw (Error (message JNull k))"
| "getProp message (JObj kvs) k =
     Ok (case map_of kvs k of None \<Rightarrow> JUndefined | Some v \<Rightarrow> v)"
| "getProp message v k = Ok JUndefined"

text \<open>The object spread \<open>{ ...a, ...b }\<close>: the properties of \<open>b\<close> are set on a copy of \<open>a\<close>.\<close>

definition spread :: "(string \<times> jsval) list \<Rightarrow> (string \<times> jsval) list \<Rightarrow> (string \<times> jsval) list" where
  "spread a b = fold (\<lambda>(k, v). AList.update k v) b a"

section \<open>Subagent and plan types (src/types/subagent.ts, src/types/plan.ts, src/types/mcp.ts)\<close>

text \<open>
  A capability is a string literal for the type checker; at run time a capability list may
  hold any values, since \<open>inferCapabilities\<close> returns an array of the parameters under a
  cast. Capabilities are therefore values.
\<close>

record Constraints =
  maxDuration :: "int option"
  maxTokens :: "int option"
  outputFormat :: "string option"

record SubagentTask =
  st_id :: "string option"
  st_name :: string
  prompt :: string
  st_capabilities :: "jsval list"
  st_context :: "(string \<times> jsval) list option"
  constraints :: "Constraints option"

record SubagentResult =
  success :: bool
  res_taskId :: string
  res_output :: jsval
  res_artifacts :: jsval
  res_error :: "string option"
  res_metadata :: "(string \<times> jsval) list option"

datatype TargetType = McpTarget | SubagentTarget

record ActionTarget =
  target_type :: TargetType
  target_serverId :: "string option"
  target_agentId :: "string option"

record PlanAction =
  action_id :: string
  action_name :: string
  action_description :: string
  target :: ActionTarget
  parameters :: "(string \<times> jsval) list"
  action_order :: "int option"
  dependsOn :: "string list option"

record MultiActionPlan =
  plan_id :: string
  plan_name :: string
  plan_description :: string
  actions :: "PlanAction list"
  plan_metadata :: "(string \<times> jsval) list option"

record MCPAction =
  mcp_serverId :: "string option"
  mcp_name :: string
  mcp_parameters :: "(string \<times> jsval) list"

record MCPResponse =
  mcp_success :: bool
  mcp_data :: jsval
  mcp_error :: "string option"

text \<open>
  The body of the request that \<open>SparkAgentClient.execute\<close> posts, and what \<open>fetch\<close> gives
  back: a rejection, or a response with its \<open>ok\<close> flag and the outcomes of reading its
  body as text and as JSON.
\<close>

record SparkRequest =
  req_prompt :: string
  req_capabilities :: "jsval list"
  req_context :: "(string \<times> jsval) list option"
  req_constraints :: "Constraints option"

record Response =
  resp_ok :: bool
  resp_text :: "string res"
  resp_json :: "jsval res"

datatype FetchOutcome = FetchRejected exn | FetchResolved Response

section \<open>Task types (src/types/task.ts)\<close>

datatype TaskStatus = Pending | Running | Completed | Failed

datatype TaskType = PlanTask | McpTask | SubagentTask

text \<open>
  An optional field is an \<open>option\<close>, \<open>None\<close> standing for \<open>undefined\<close>; the field
  \<open>result\<close> of type \<open>unknown\<close> is a value, \<open>JUndefined\<close> when unset. A \<open>Date\<close> is its
  number of milliseconds.
\<close>

record Task =
  task_id :: string
  task_name :: string
  task_description :: "string option"
  task_type :: TaskType
  status :: TaskStatus
  parentId :: "string option"
  task_metadata :: "(string \<times> jsval) list option"
  result :: jsval
  error :: "string option"
  createdAt :: nat
  startedAt :: "nat option"
  completedAt :: "nat option"

datatype TaskEventType = Created | Started | Updated | Finished | ErrorEvent

record TaskEvent =
  event_type :: TaskEventType
  event_task :: Task
  event_error :: "string option"

text \<open>\<open>Omit<Task, 'id' | 'status' | 'createdAt'>\<close>, the argument of \<open>create\<close>.\<close>

record TaskInit =
  init_name :: string
  init_description :: "string option"
  init_type :: TaskType
  init_parentId :: "string option"
  init_metadata :: "(string \<times> jsval) list option"
  init_result :: jsval
  init_error :: "string option"
  init_startedAt :: "nat option"
  init_completedAt :: "nat option"

text \<open>
  \<open>Partial<Task>\<close>, the argument of \<open>update\<close>: every field may be present or absent.
  For an optional field of \<open>Task\<close> the present value may itself be \<open>undefined\<close>.
\<close>

record TaskPatch =
  patch_id :: "string option"
  patch_name :: "string option"
  patch_description :: "string option option"
  patch_type :: "TaskType option"
  patch_status :: "TaskStatus option"
  patch_parentId :: "string option option"
  patch_metadata :: "(string \<times> jsval) list option option"
  patch_result :: "jsval option"
  patch_error :: "string option option"
  patch_createdAt :: "nat option"
  patch_startedAt :: "nat option option"
  patch_completedAt :: "nat option option"

fun orKeep :: "'a option \<Rightarrow> 'a \<Rightarrow> 'a" where
  "orKeep None old = old"
| "orKeep (Some v) old = v"

text \<open>The object spread \<open>{ ...task, ...progress }\<close>.\<close>

definition spreadPatch :: "Task \<Rightarrow> TaskPatch \<Rightarrow> Task" where
  "spreadPatch task progress =
     \<lparr> task_id = orKeep (patch_id progress) (task_id task),
       task_name = orKeep (patch_name progress) (task_name task),
       task_description = orKeep (patch_description progress) (task_description task),
       task_type = orKeep (patch_type progress) (task_type task),
       status = orKeep (patch_status progress) (status task),
       parentId = orKeep (patch_parentId progress) (parentId task),
       task_metadata = orKeep (patch_metadata progress) (task_metadata task),
       result = orKeep (patch_result progress) (result task),
       error = orKeep (patch_error progress) (error task),
       createdAt = orKeep (patch_createdAt progress) (createdAt task),
       startedAt = orKeep (patch_startedAt progress) (startedAt task),
       completedAt = orKeep (patch_completedAt progress) (completedAt task) \<rparr>"

section \<open>Task manager (src/lib/tasks/lifecycle.ts)\<close>

text \<open>
  A subscribed handler is a callback of the caller. It acts on the world outside the task
  manager, of an arbitrary type \<open>'w\<close>, and either returns or throws; \<open>Some e\<close> is the value
  it threw. Handlers in this model do not call back into the task manager.
\<close>

type_synonym 'w TaskEventHandler = "TaskEvent \<Rightarrow> 'w \<Rightarrow> exn option \<times> 'w"

text \<open>
  The state of the process: the two private fields of the \<open>TaskManager\<close> singleton (the
  \<open>Map\<close> of tasks as an association list in insertion order), the world the handlers act
  on, and how many times \<open>crypto.randomUUID()\<close> and \<open>new Date()\<close> have been evaluated.
\<close>

record 'w state =
  tasks :: "(string \<times> Task) list"
  eventHandlers :: "'w TaskEventHandler list"
  world :: 'w
  uuidsDrawn :: nat
  clockReads :: nat

text \<open>
  What the program does not determine is a parameter: the successive values of
  \<open>crypto.randomUUID()\<close> and of \<open>new Date()\<close>, the outcome of the \<open>fetch\<close> of the Spark
  agent for each request, the answer of \<open>mcpClient.executeAction\<close>, which catches
  every failure of its own and always returns a response, for each action, and two
  functions of the JavaScript engine: \<open>String.prototype.toLowerCase\<close>, which applies the
  case mapping of Unicode, and the message of the \<open>TypeError\<close> raised when a property of
  \<open>null\<close> or \<open>undefined\<close> is read.
\<close>

record runtime =
  randomUUID :: "nat \<Rightarrow> string"
  dateNow :: "nat \<Rightarrow> nat"
  fetch :: "SparkRequest \<Rightarrow> FetchOutcome"
  mcpExecuteAction :: "MCPAction \<Rightarrow> MCPResponse"
  toLowerCase :: "string \<Rightarrow> string"
  typeErrorMessage :: "jsval \<Rightarrow> string \<Rightarrow> string"

text \<open>\<open>onEvent\<close> pushes the handler; the unsubscribe closure it returns is not modelled.\<close>

definition onEvent :: "'w TaskEventHandler \<Rightarrow> 'w state \<Rightarrow> 'w state" where
  "onEvent handler s = s \<lparr> eventHandlers := eventHandlers s @ [handler] \<rparr>"

text \<open>
  \<open>this.eventHandlers.forEach((handler) => handler(event))\<close>: the handlers are called in
  order; an exception thrown by one of them leaves \<open>forEach\<close> at once.
\<close>

fun forEach_handler ::
  "'w TaskEventHandler list \<Rightarrow> TaskEvent \<Rightarrow> 'w \<Rightarrow> exn option \<times> 'w" where
  "forEach_handler [] event w = (None, w)"
| "forEach_handler (handler # rest) event w =
     (case handler event w of
        (Some e, w') \<Rightarrow> (Some e, w')
      | (None, w') \<Rightarrow> forEach_handler rest event w')"

definition emit :: "TaskEvent \<Rightarrow> 'w state \<Rightarrow> exn option \<times> 'w state" where
  "emit event s =
     (case forEach_handler (eventHandlers s) event (world s) of
        (thrown, w') \<Rightarrow> (thrown, s \<lparr> world := w' \<rparr>))"

text \<open>
  A mutator stores the new task, emits its event and returns the task; an exception of a
  handler leaves the mutator after the task has been stored.
\<close>

definition emitAndReturn :: "TaskEvent \<Rightarrow> 'a \<Rightarrow> 'w state \<Rightarrow> 'a res \<times> 'w state" where
  "emitAndReturn event value s =
     (case emit event s of
        (Some e, s') \<Rightarrow> (Throw e, s')
      | (None, s') \<Rightarrow> (Ok value, s'))"

definition create :: "runtime \<Rightarrow> TaskInit \<Rightarrow> 'w state \<Rightarrow> Task res \<times> 'w state" where
  "create rt task s =
     (let newTask = \<lparr> task_id = randomUUID rt (uuidsDrawn s),
            task_name = init_name task,
            task_description = init_description task,
            task_type = init_type task,
            status = Pending,
            parentId = init_parentId task,
            task_metadata = init_metadata task,
            result = init_result task,
            error = init_error task,
            createdAt = dateNow rt (clockReads s),
            startedAt = init_startedAt task,
            completedAt = init_completedAt task \<rparr>;
          s1 = s \<lparr> tasks := AList.update (task_id newTask) newTask (tasks s),
                   uuidsDrawn := Suc (uuidsDrawn s),
                   clockReads := Suc (clockReads s) \<rparr>
      in emitAndReturn \<lparr> event_type = Created, event_task = newTask, event_error = None \<rparr>
           newTask s1)"

definition start :: "runtime \<Rightarrow> string \<Rightarrow> 'w state \<Rightarrow> Task option res \<times> 'w state" where
  "start rt taskId s =
     (case map_of (tasks s) taskId of
        None \<Rightarrow> (Ok None, s)
      | Some task \<Rightarrow>
          (let updatedTask = task \<lparr> status := Running,
                 startedAt := Some (dateNow rt (clockReads s)) \<rparr>;
               s1 = s \<lparr> tasks := AList.update taskId updatedTask (tasks s),
                        clockReads := Suc (clockReads s) \<rparr>
           in emitAndReturn
                \<lparr> event_type = Started, event_task = updatedTask, event_error = None \<rparr>
                (Some updatedTask) s1))"

definition update :: "string \<Rightarrow> TaskPatch \<Rightarrow> 'w state \<Rightarrow> Task option res \<times> 'w state" where
  "update taskId progress s =
     (case map_of (tasks s) taskId of
        None \<Rightarrow> (Ok None, s)
      | Some task \<Rightarrow>
          (let updatedTask = spreadPatch task progress;
               s1 = s \<lparr> tasks := AList.update taskId updatedTask (tasks s) \<rparr>
           in emitAndReturn
                \<lparr> event_type = Updated, event_task = updatedTask, event_error = None \<rparr>
                (Some updatedTask) s1))"

text \<open>An omitted \<open>result\<close> argument of \<open>finish\<close> is \<open>JUndefined\<close>.\<close>

definition finish ::
  "runtime \<Rightarrow> string \<Rightarrow> jsval \<Rightarrow> 'w state \<Rightarrow> Task option res \<times> 'w state" where
  "finish rt taskId res s =
     (case map_of (tasks s) taskId of
        None \<Rightarrow> (Ok None, s)
      | Some task \<Rightarrow>
          (let updatedTask = task \<lparr> status := Completed,
                 completedAt := Some (dateNow rt (clockReads s)),
                 result := res \<rparr>;
               s1 = s \<lparr> tasks := AList.update taskId updatedTask (tasks s),
                        clockReads := Suc (clockReads s) \<rparr>
           in emitAndReturn
                \<lparr> event_type = Finished, event_task = updatedTask, event_error = None \<rparr>
                (Some updatedTask) s1))"

definition taskError ::
  "runtime \<Rightarrow> string \<Rightarrow> string \<Rightarrow> 'w state \<Rightarrow> Task option res \<times> 'w state" where
  "taskError rt taskId err s =
     (case map_of (tasks s) taskId of
        None \<Rightarrow> (Ok None, s)
      | Some task \<Rightarrow>
          (let updatedTask = task \<lparr> status := Failed,
                 completedAt := Some (dateNow rt (clockReads s)),
                 error := Some err \<rparr>;
               s1 = s \<lparr> tasks := AList.update taskId updatedTask (tasks s),
                        clockReads := Suc (clockReads s) \<rparr>
           in emitAndReturn
                \<lparr> event_type = ErrorEvent, event_task = updatedTask, event_error = Some err \<rparr>
                (Some updatedTask) s1))"

text \<open>Every subscribed handler returns, whatever the event and the world.\<close>

definition handlersReturn :: "'w state \<Rightarrow> bool" where
  "handlersReturn s = (\<forall>h \<in> set (eventHandlers s). \<forall>event w. fst (h event w) = None)"

text \<open>
  No identifier that \<open>crypto.randomUUID()\<close> is still to return is a key of the store, and
  no two of its values are equal.
\<close>

definition uuidsFresh :: "runtime \<Rightarrow> 'w state \<Rightarrow> bool" where
  "uuidsFresh rt s =
     (inj (randomUUID rt)
      \<and> (\<forall>n. uuidsDrawn s \<le> n \<longrightarrow> randomUUID rt n \<notin> fst ` set (tasks s)))"

definition getTask :: "string \<Rightarrow> 'w state \<Rightarrow> Task option" where
  "getTask taskId s = map_of (tasks s) taskId"

definition getAll :: "TaskStatus option \<Rightarrow> 'w state \<Rightarrow> Task list" where
  "getAll statusFilter s =
     (case statusFilter of
        None \<Rightarrow> map snd (tasks s)
      | Some st \<Rightarrow> filter (\<lambda>t. status t = st) (map snd (tasks s)))"

section \<open>Concrete runs of the task manager\<close>

text \<open>
  A runtime whose identifiers are \<open>uuid-0\<close>, \<open>uuid-1\<close>, ..., whose clock advances by
  one millisecond at each reading and where no backend can be reached, and an initial state
  with no task and no handler. Its \<open>toLowerCase\<close> is the one of the engine on the texts
  of ASCII characters, the only ones it is applied to below, and the message of its
  \<open>TypeError\<close> is the one of V8.
\<close>

definition rt0 :: runtime where
  "rt0 = \<lparr> randomUUID = (\<lambda>n. ''uuid-'' @ show_nat n), dateNow = (\<lambda>n. 1000 + n),
     fetch = (\<lambda>req. FetchRejected (Error ''fetch failed'')),
     mcpExecuteAction = (\<lambda>a. \<lparr> mcp_success = False, mcp_data = JUndefined,
        mcp_error = Some ''MCP server not found'' \<rparr>),
     toLowerCase = asciiLower,
     typeErrorMessage = (\<lambda>v k. ''Cannot read properties of '' @ jsToString v
        @ '' (reading '' @ [CHR 0x27] @ k @ [CHR 0x27] @ '')'') \<rparr>"

definition testInit :: TaskInit where
  "testInit = \<lparr> init_name = ''Test Task'', init_description = None, init_type = McpTask,
     init_parentId = None, init_metadata = None, init_result = JUndefined,
     init_error = None, init_startedAt = None, init_completedAt = None \<rparr>"

definition emptyState :: "'w \<Rightarrow> 'w state" where
  "emptyState w = \<lparr> tasks = [], eventHandlers = [], world = w, uuidsDrawn = 0,
     clockReads = 0 \<rparr>"

text \<open>The state after \<open>create\<close> of the test task: one pending task \<open>uuid-0\<close>.\<close>

definition pendingState :: "unit state" where
  "pendingState = snd (create rt0 testInit (emptyState ()))"

text \<open>The state after \<open>create\<close>, \<open>start\<close> and \<open>finish\<close>: the task is completed.\<close>

definition completedState :: "unit state" where
  "completedState =
     snd (finish rt0 ''uuid-0'' (JStr ''done'') (snd (start rt0 ''uuid-0'' pendingState)))"

text \<open>A patch that sets no field but \<open>status\<close>, to \<open>pending\<close>.\<close>

definition statusPatch :: TaskPatch where
  "statusPatch = \<lparr> patch_id = None, patch_name = None, patch_description = None,
     patch_type = None, patch_status = Some Pending, patch_parentId = None,
     patch_metadata = None, patch_result = None, patch_error = None,
     patch_createdAt = None, patch_startedAt = None, patch_completedAt = None \<rparr>"

definition completedTask :: Task where
  "completedTask = \<lparr> task_id = ''uuid-0'', task_name = ''Test Task'',
     task_description = None, task_type = McpTask, status = Completed, parentId = None,
     task_metadata = None, result = JStr ''done'', error = None, createdAt = 1000,
     startedAt = Some 1001, completedAt = Some 1002 \<rparr>"

text \<open>
  Two handlers acting on a log of strings: the first throws, the second appends the
  identifier of the task of the event to the log.
\<close>

definition throwingHandler :: "string list TaskEventHandler" where
  "throwingHandler event w = (Some (Error ''handler failed''), w)"

definition loggingHandler :: "string list TaskEventHandler" where
  "loggingHandler event w = (None, w @ [task_id (event_task event)])"

text \<open>The pending state with both handlers subscribed, the throwing one first.\<close>

definition handlerState :: "string list state" where
  "handlerState =
     onEvent loggingHandler (onEvent throwingHandler
       (snd (create rt0 testInit (emptyState []))))"

definition startedEvent :: TaskEvent where
  "startedEvent = \<lparr> event_type = Started, event_task = completedTask, event_error = None \<rparr>"

text \<open>
  The pending state with three handlers subscribed: a logging one, the throwing one, and
  a logging one again.
\<close>

definition mixedState :: "string list state" where
  "mixedState =
     onEvent loggingHandler (onEvent throwingHandler (onEvent loggingHandler
       (snd (create rt0 testInit (emptyState [])))))"

definition pendingTask :: Task where
  "pendingTask = \<lparr> task_id = ''uuid-0'', task_name = ''Test Task'',
     task_description = None, task_type = McpTask, status = Pending, parentId = None,
     task_metadata = None, result = JUndefined, error = None, createdAt = 1000,
     startedAt = None, completedAt = None \<rparr>"

section \<open>Subagent registry (src/lib/subagents/registry.ts)\<close>

datatype SubagentStatus = Available | Busy | Offline

text \<open>
  \<open>Subagent\<close> of src/types/subagent.ts. A capability is a string literal at run time;
  the registry only compares capabilities for equality, so their type is left open.
\<close>

record 'c Subagent =
  agent_id :: string
  agent_name :: string
  agent_description :: string
  capabilities :: "'c list"
  agent_status :: SubagentStatus
  agent_metadata :: "(string \<times> jsval) list option"

text \<open>
  The private field \<open>agents: Map<string, Subagent>\<close>. A JavaScript \<open>Map\<close> iterates in
  the order in which its keys were first inserted, and \<open>set\<close> on a key already present
  replaces the value in place: this is \<open>AList.update\<close> on an association list.
\<close>

type_synonym 'c SubagentRegistry = "(string \<times> 'c Subagent) list"

definition register :: "'c Subagent \<Rightarrow> 'c SubagentRegistry \<Rightarrow> 'c SubagentRegistry" where
  "register agent agents = AList.update (agent_id agent) agent agents"

definition unregister :: "string \<Rightarrow> 'c SubagentRegistry \<Rightarrow> bool \<times> 'c SubagentRegistry" where
  "unregister agentId agents =
     (agentId \<in> fst ` set agents, AList.delete agentId agents)"

definition registry_values :: "'c SubagentRegistry \<Rightarrow> 'c Subagent list" where
  "registry_values agents = map snd agents"

text \<open>
  The score of one agent in \<open>findBestMatch\<close>:
  \<open>requiredCapabilities.filter((cap) => agent.capabilities.includes(cap)).length\<close>.
\<close>

definition score :: "'c list \<Rightarrow> 'c Subagent \<Rightarrow> nat" where
  "score requiredCapabilities agent =
     length (filter (\<lambda>cap. cap \<in> set (capabilities agent)) requiredCapabilities)"

text \<open>
  The \<open>for\<close> loop of \<open>findBestMatch\<close>, with its two local variables \<open>bestMatch\<close> and
  \<open>bestScore\<close> as accumulators.
\<close>

fun findBestMatch_loop ::
  "'c list \<Rightarrow> 'c Subagent list \<Rightarrow> 'c Subagent option \<Rightarrow> nat \<Rightarrow> 'c Subagent option" where
  "findBestMatch_loop req [] bestMatch bestScore = bestMatch"
| "findBestMatch_loop req (agent # rest) bestMatch bestScore =
     (if score req agent > bestScore
      then findBestMatch_loop req rest (Some agent) (score req agent)
      else findBestMatch_loop req rest bestMatch bestScore)"

definition findBestMatch :: "'c list \<Rightarrow> 'c SubagentRegistry \<Rightarrow> 'c Subagent option" where
  "findBestMatch requiredCapabilities agents =
     findBestMatch_loop requiredCapabilities (registry_values agents) None 0"

text \<open>The two agents registered by the registry's test of \<open>findBestMatch\<close>.\<close>

definition mockAgent :: "string Subagent" where
  "mockAgent = \<lparr> agent_id = ''test-agent'', agent_name = ''Test Agent'',
     agent_description = ''A test agent'', capabilities = [''code'', ''testing''],
     agent_status = Available, agent_metadata = None \<rparr>"

definition fullAgent :: "string Subagent" where
  "fullAgent = mockAgent \<lparr> agent_id := ''full-agent'',
     capabilities := [''code'', ''testing'', ''aesthetics''] \<rparr>"

definition testRegistry :: "string SubagentRegistry" where
  "testRegistry = register fullAgent (register mockAgent [])"

text \<open>
  A third agent with the capabilities of \<open>fullAgent\<close>, registered last: it ties with
  \<open>fullAgent\<close> on every request.
\<close>

definition twinAgent :: "string Subagent" where
  "twinAgent = fullAgent \<lparr> agent_id := ''twin-agent'' \<rparr>"

definition tieRegistry :: "string SubagentRegistry" where
  "tieRegistry = register twinAgent testRegistry"

section \<open>Promises\<close>

text \<open>
  An \<open>async\<close> function runs synchronously up to its first \<open>await\<close> of a pending promise and
  hands a promise to its caller. In the functions modelled here the code after that
  \<open>await\<close> touches the shared state in one uninterrupted piece, so a promise is either
  settled when it is handed over, or waiting with the data \<open>'p\<close> its continuation needs.
\<close>

datatype ('a, 'p) promise = Fulfilled 'a | Rejected exn | Waiting 'p

fun isWaiting :: "('a, 'p) promise \<Rightarrow> bool" where
  "isWaiting (Waiting p) = True"
| "isWaiting other = False"

fun settled :: "'a res \<Rightarrow> ('a, 'p) promise" where
  "settled (Ok v) = Fulfilled v"
| "settled (Throw e) = Rejected e"

text \<open>\<open>xs.map(f)\<close> for an \<open>async\<close> function \<open>f\<close>: the synchronous parts run in order.\<close>

fun startAll ::
  "('x \<Rightarrow> 's \<Rightarrow> ('a, 'p) promise \<times> 's) \<Rightarrow> 'x list \<Rightarrow> 's \<Rightarrow> ('a, 'p) promise list \<times> 's" where
  "startAll f [] s = ([], s)"
| "startAll f (x # xs) s =
     (case f x s of (p, s1) \<Rightarrow>
        (case startAll f xs s1 of (ps, s2) \<Rightarrow> (p # ps, s2)))"

fun firstRejected :: "('a, 'p) promise list \<Rightarrow> exn option" where
  "firstRejected [] = None"
| "firstRejected (Rejected e # ps) = Some e"
| "firstRejected (p # ps) = firstRejected ps"

definition waitingIndices :: "('a, 'p) promise list \<Rightarrow> nat list" where
  "waitingIndices ps = filter (\<lambda>i. isWaiting (ps ! i)) [0..<length ps]"

fun fulfilledValues :: "('a, 'p) promise list \<Rightarrow> 'a list" where
  "fulfilledValues [] = []"
| "fulfilledValues (Fulfilled v # ps) = v # fulfilledValues ps"
| "fulfilledValues (p # ps) = fulfilledValues ps"

text \<open>
  \<open>await Promise.all(ps)\<close>. It rejects as soon as one promise is rejected, and fulfils
  with the values in the order of \<open>ps\<close> once all are fulfilled. While promises are waiting
  and none is rejected, one of them is settled next; which one is decided outside the
  program (by the order in which the backends answer) and is the choice \<open>pick\<close> makes
  from the current state. When \<open>Promise.all\<close> rejects, the promises still waiting are left
  waiting and the state is the one at the rejection. In the program the continuations of
  the other promises run later, those whose backend has already answered before the caller
  resumes and the others after it; they act on the task of their own action only and are
  not part of the state given here.
\<close>

function promiseAll ::
  "('p \<Rightarrow> 's \<Rightarrow> 'a res \<times> 's) \<Rightarrow> ('s \<Rightarrow> nat) \<Rightarrow> ('a, 'p) promise list \<Rightarrow> 's
     \<Rightarrow> 'a list res \<times> 's" where
  "promiseAll resume pick ps s =
     (case firstRejected ps of
        Some e \<Rightarrow> (Throw e, s)
      | None \<Rightarrow>
          (case waitingIndices ps of
             [] \<Rightarrow> (Ok (fulfilledValues ps), s)
           | w # ws \<Rightarrow>
               (let i = (w # ws) ! (pick s mod length (w # ws)) in
                  (case ps ! i of
                     Waiting p \<Rightarrow>
                       (case resume p s of
                          (r, s1) \<Rightarrow> promiseAll resume pick (ps[i := settled r]) s1)
                   | other \<Rightarrow> (Ok (fulfilledValues ps), s)))))"
  by pat_completeness auto
termination
proof (relation "measure (\<lambda>(resume, pick, ps, s). length (filter isWaiting ps))")
  show "wf (measure (\<lambda>(resume :: 'a \<Rightarrow> 'b \<Rightarrow> 'c res \<times> 'b, pick :: 'b \<Rightarrow> nat,
      ps :: ('c, 'a) promise list, s :: 'b). length (filter isWaiting ps)))"
    by simp
next
  fix resume :: "'a \<Rightarrow> 'b \<Rightarrow> 'c res \<times> 'b" and pick :: "'b \<Rightarrow> nat"
    and ps :: "('c, 'a) promise list" and s :: 'b and w ws i p r s1
  assume wi: "waitingIndices ps = w # ws"
    and i: "i = (w # ws) ! (pick s mod length (w # ws))"
  have less: "length (filter isWaiting (xs[k := y])) < length (filter isWaiting xs)"
    if "k < length xs" "isWaiting (xs ! k)" "\<not> isWaiting y"
    for xs :: "('c, 'a) promise list" and k y
    using that
  proof (induction xs arbitrary: k)
    case Nil
    then show ?case by simp
  next
    case (Cons a xs)
    show ?case
    proof (cases k)
      case 0
      then show ?thesis using Cons.prems by simp
    next
      case (Suc j)
      then have "length (filter isWaiting (xs[j := y])) < length (filter isWaiting xs)"
        using Cons.IH [of j] Cons.prems by simp
      then show ?thesis using Suc by simp
    qed
  qed
  have "pick s mod length (w # ws) < length (w # ws)" by simp
  then have "i \<in> set (w # ws)" unfolding i by (rule nth_mem)
  then have "i \<in> set (waitingIndices ps)" using wi by simp
  then have "i < length ps" "isWaiting (ps ! i)"
    by (simp_all add: waitingIndices_def)
  moreover have "\<not> isWaiting (settled r :: ('c, 'a) promise)" by (cases r) simp_all
  ultimately have "length (filter isWaiting (ps[i := settled r])) < length (filter isWaiting ps)"
    by (rule less)
  then show "((resume, pick, ps[i := settled r], s1), resume, pick, ps, s)
      \<in> measure (\<lambda>(resume, pick, ps, s). length (filter isWaiting ps))"
    by simp
qed

declare promiseAll.simps [simp del]

text \<open>The promises once every waiting one has been fulfilled with the value \<open>f\<close> gives.\<close>

definition resolveWith :: "('p \<Rightarrow> 'a) \<Rightarrow> ('a, 'p) promise list \<Rightarrow> ('a, 'p) promise list" where
  "resolveWith f ps =
     map (\<lambda>q. case q of Waiting p \<Rightarrow> Fulfilled (f p) | other \<Rightarrow> other) ps"

section \<open>Spark agent client (src/lib/subagents/spark-agent.ts)\<close>

definition sparkAgentConfig :: "jsval Subagent" where
  "sparkAgentConfig = \<lparr> agent_id = ''spark-agent'', agent_name = ''Spark Agent'',
     agent_description = ''Specialized AI for complex, long-horizon task execution'',
     capabilities = [JStr ''code'', JStr ''testing'', JStr ''aesthetics'',
       JStr ''presentation'', JStr ''research'', JStr ''multimodal'', JStr ''mcp''],
     agent_status = Available,
     agent_metadata = Some [(''version'', JStr ''1.0.0''), (''provider'', JStr ''spark'')] \<rparr>"

text \<open>
  \<open>execute\<close> up to its \<open>await fetch(...)\<close>: the internal task is created and started.
  Both calls stand before the \<open>try\<close>, so an exception of a handler leaves \<open>execute\<close>.
\<close>

definition execute_begin ::
  "runtime \<Rightarrow> SubagentTask \<Rightarrow> 'w state \<Rightarrow> Task res \<times> 'w state" where
  "execute_begin rt task s =
     (case create rt \<lparr> init_name = ''Spark: '' @ st_name task,
               init_description = Some (prompt task),
               init_type = SubagentTask,
               init_parentId = None,
               init_metadata = Some [(''subagentId'', JStr ''spark-agent''),
                  (''capabilities'', JArr (st_capabilities task))],
               init_result = JUndefined, init_error = None,
               init_startedAt = None, init_completedAt = None \<rparr> s of
        (Throw e, s1) \<Rightarrow> (Throw e, s1)
      | (Ok internalTask, s1) \<Rightarrow>
          (case start rt (task_id internalTask) s1 of
             (Throw e, s2) \<Rightarrow> (Throw e, s2)
           | (Ok started, s2) \<Rightarrow> (Ok internalTask, s2)))"

definition sparkRequest :: "SubagentTask \<Rightarrow> SparkRequest" where
  "sparkRequest task = \<lparr> req_prompt = prompt task, req_capabilities = st_capabilities task,
     req_context = st_context task, req_constraints = constraints task \<rparr>"

text \<open>
  The first statements of the \<open>try\<close> block of \<open>execute\<close>: the value of
  \<open>await response.json()\<close>, or what is thrown before it is obtained.
\<close>

definition awaitResult :: "runtime \<Rightarrow> SubagentTask \<Rightarrow> jsval res" where
  "awaitResult rt task =
     (case fetch rt (sparkRequest task) of
        FetchRejected e \<Rightarrow> Throw e
      | FetchResolved response \<Rightarrow>
          (if \<not> resp_ok response then
             (case resp_text response of
                Throw e \<Rightarrow> Throw e
              | Ok err \<Rightarrow> Throw (Error (''Spark Agent error: '' @ err)))
           else resp_json response))"

text \<open>
  The object literal that \<open>execute\<close> returns on success. Its fields are read from
  \<open>result\<close>, the parsed body, after \<open>taskManager.finish\<close> has been called.
\<close>

definition successResult :: "runtime \<Rightarrow> string \<Rightarrow> jsval \<Rightarrow> SubagentResult res" where
  "successResult rt internalId res =
     (case getProp (typeErrorMessage rt) res ''output'' of
        Throw e \<Rightarrow> Throw e
      | Ok out \<Rightarrow>
     (case getProp (typeErrorMessage rt) res ''artifacts'' of
        Throw e \<Rightarrow> Throw e
      | Ok arts \<Rightarrow>
     (case getProp (typeErrorMessage rt) res ''duration'' of
        Throw e \<Rightarrow> Throw e
      | Ok duration \<Rightarrow>
     (case getProp (typeErrorMessage rt) res ''tokensUsed'' of
        Throw e \<Rightarrow> Throw e
      | Ok tokensUsed \<Rightarrow>
          Ok \<lparr> success = True, res_taskId = internalId,
               res_output = out, res_artifacts = arts, res_error = None,
               res_metadata = Some [(''duration'', duration),
                  (''tokensUsed'', tokensUsed)] \<rparr>))))"

text \<open>The body of the \<open>try\<close> block of \<open>execute\<close>, from the answer of \<open>fetch\<close> on.\<close>

definition execute_try ::
  "runtime \<Rightarrow> SubagentTask \<Rightarrow> string \<Rightarrow> 'w state \<Rightarrow> SubagentResult res \<times> 'w state" where
  "execute_try rt task internalId s =
     (case awaitResult rt task of
        Throw e \<Rightarrow> (Throw e, s)
      | Ok res \<Rightarrow>
          (case finish rt internalId res s of
             (Throw e, s1) \<Rightarrow> (Throw e, s1)
           | (Ok finished, s1) \<Rightarrow> (successResult rt internalId res, s1)))"

text \<open>The \<open>try\<close> with its \<open>catch\<close>: what \<open>execute\<close> does once \<open>fetch\<close> has answered.\<close>

definition execute_resume ::
  "runtime \<Rightarrow> SubagentTask \<times> Task \<Rightarrow> 'w state \<Rightarrow> SubagentResult res \<times> 'w state" where
  "execute_resume rt pending s =
     (case pending of (task, internalTask) \<Rightarrow>
        (case execute_try rt task (task_id internalTask) s of
           (Ok r, s1) \<Rightarrow> (Ok r, s1)
         | (Throw e, s1) \<Rightarrow>
             (let errorMessage = messageOr ''Unknown error'' e in
                (case taskError rt (task_id internalTask) errorMessage s1 of
                   (Throw e2, s2) \<Rightarrow> (Throw e2, s2)
                 | (Ok failed, s2) \<Rightarrow>
                     (Ok \<lparr> success = False, res_taskId = task_id internalTask,
                           res_output = JUndefined, res_artifacts = JUndefined,
                           res_error = Some errorMessage, res_metadata = None \<rparr>, s2)))))"

definition execute ::
  "runtime \<Rightarrow> SubagentTask \<Rightarrow> 'w state \<Rightarrow> SubagentResult res \<times> 'w state" where
  "execute rt task s =
     (case execute_begin rt task s of
        (Throw e, s1) \<Rightarrow> (Throw e, s1)
      | (Ok internalTask, s1) \<Rightarrow> execute_resume rt (task, internalTask) s1)"

section \<open>Orchestrator (src/lib/subagents/orchestrator.ts)\<close>

definition noSubagentFound :: "SubagentTask \<Rightarrow> SubagentResult" where
  "noSubagentFound task = \<lparr> success = False, res_taskId = [],
     res_output = JUndefined, res_artifacts = JUndefined,
     res_error = Some (''No subagent found with capabilities: ''
        @ joinValues '', '' (st_capabilities task)),
     res_metadata = None \<rparr>"

definition executeGenericSubagent :: "string \<Rightarrow> SubagentTask \<Rightarrow> SubagentResult" where
  "executeGenericSubagent agentIdent task = \<lparr> success = False, res_taskId = [],
     res_output = JUndefined, res_artifacts = JUndefined,
     res_error = Some (''Subagent '' @ agentIdent @ '' execution not implemented''),
     res_metadata = None \<rparr>"

text \<open>
  \<open>delegate\<close> up to the first pending \<open>await\<close>. The registry singleton is the argument
  \<open>agents\<close>; \<open>delegate\<close> only reads it.
\<close>

definition delegate_begin ::
  "runtime \<Rightarrow> jsval SubagentRegistry \<Rightarrow> SubagentTask \<Rightarrow> 'w state
     \<Rightarrow> (SubagentResult, SubagentTask \<times> Task) promise \<times> 'w state" where
  "delegate_begin rt agents task s =
     (case findBestMatch (st_capabilities task) agents of
        None \<Rightarrow> (Fulfilled (noSubagentFound task), s)
      | Some agent \<Rightarrow>
          (if agent_id agent = ''spark-agent'' then
             (case execute_begin rt task s of
                (Throw e, s1) \<Rightarrow> (Rejected e, s1)
              | (Ok internalTask, s1) \<Rightarrow> (Waiting (task, internalTask), s1))
           else (Fulfilled (executeGenericSubagent (agent_id agent) task), s)))"

text \<open>\<open>await this.delegate(task)\<close>: the call runs to its end before the caller goes on.\<close>

definition delegate ::
  "runtime \<Rightarrow> jsval SubagentRegistry \<Rightarrow> SubagentTask \<Rightarrow> 'w state
     \<Rightarrow> SubagentResult res \<times> 'w state" where
  "delegate rt agents task s =
     (case delegate_begin rt agents task s of
        (Fulfilled r, s1) \<Rightarrow> (Ok r, s1)
      | (Rejected e, s1) \<Rightarrow> (Throw e, s1)
      | (Waiting pending, s1) \<Rightarrow> execute_resume rt pending s1)"

definition delegateParallel ::
  "runtime \<Rightarrow> ('w state \<Rightarrow> nat) \<Rightarrow> jsval SubagentRegistry \<Rightarrow> SubagentTask list \<Rightarrow> 'w state
     \<Rightarrow> SubagentResult list res \<times> 'w state" where
  "delegateParallel rt pick agents taskList s =
     (case startAll (delegate_begin rt agents) taskList s of
        (ps, s1) \<Rightarrow> promiseAll (execute_resume rt) pick ps s1)"

definition resultKey :: "nat \<Rightarrow> string" where
  "resultKey n = ''result_'' @ show_nat n"

text \<open>
  The \<open>for\<close> loop of \<open>delegateSequential\<close>, with its locals \<open>results\<close> and
  \<open>accumulatedContext\<close> as accumulators. An exception of \<open>delegate\<close> leaves the loop.
\<close>

fun delegateSequential_loop ::
  "runtime \<Rightarrow> jsval SubagentRegistry \<Rightarrow> bool \<Rightarrow> SubagentTask list \<Rightarrow> SubagentResult list
     \<Rightarrow> (string \<times> jsval) list \<Rightarrow> 'w state \<Rightarrow> SubagentResult list res \<times> 'w state" where
  "delegateSequential_loop rt agents contextPropagation [] results accumulatedContext s =
     (Ok results, s)"
| "delegateSequential_loop rt agents contextPropagation (task # rest) results
       accumulatedContext s =
     (let enrichedTask =
            (if contextPropagation
             then task \<lparr> st_context := Some (spread
                    (case st_context task of None \<Rightarrow> [] | Some c \<Rightarrow> c) accumulatedContext) \<rparr>
             else task)
      in (case delegate rt agents enrichedTask s of
            (Throw e, s1) \<Rightarrow> (Throw e, s1)
          | (Ok r, s1) \<Rightarrow>
              (let results1 = results @ [r];
                   accumulatedContext1 =
                     (if success r \<and> truthy (res_output r)
                      then spread accumulatedContext
                             [(resultKey (length results1 - 1), res_output r)]
                      else accumulatedContext)
               in delegateSequential_loop rt agents contextPropagation rest results1
                    accumulatedContext1 s1)))"

definition delegateSequential ::
  "runtime \<Rightarrow> jsval SubagentRegistry \<Rightarrow> SubagentTask list \<Rightarrow> bool \<Rightarrow> 'w state
     \<Rightarrow> SubagentResult list res \<times> 'w state" where
  "delegateSequential rt agents taskList contextPropagation s =
     delegateSequential_loop rt agents contextPropagation taskList [] [] s"





text \<open>
  Plan actions: the example of the specification, one with an explicit list, one written
  in capitals where a keyword occurs inside a word, one where no keyword occurs, and one
  whose parameter \<open>capabilities\<close> is not an array.
\<close>

definition checkoutAction :: PlanAction where
  "checkoutAction = \<lparr> action_id = ''1'', action_name = ''Checkout'',
     action_description = ''Develop and test the checkout flow'',
     target = \<lparr> target_type = SubagentTarget, target_serverId = None,
       target_agentId = None \<rparr>,
     parameters = [], action_order = None, dependsOn = None \<rparr>"




text \<open>
  The value of the local \<open>accumulatedContext\<close> of \<open>delegateSequential\<close> once the results
  \<open>rs\<close> have been pushed: each iteration adds to it under the index of its own result.
\<close>

definition accumulatedAfter :: "SubagentResult list \<Rightarrow> (string \<times> jsval) list" where
  "accumulatedAfter rs =
     fold (\<lambda>i acc. if success (rs ! i) \<and> truthy (res_output (rs ! i))
                    then spread acc [(resultKey i, res_output (rs ! i))] else acc)
       [0..<length rs] []"

text \<open>
  A registry holding the Spark agent alone, a backend that answers every request with its
  context as output, and three work items: the first requires no capability and so
  matches no agent, the other two are routed to the Spark agent.
\<close>

definition sparkRegistry :: "jsval SubagentRegistry" where
  "sparkRegistry = register sparkAgentConfig []"

definition echoFetch :: "SparkRequest \<Rightarrow> FetchOutcome" where
  "echoFetch req = FetchResolved \<lparr> resp_ok = True, resp_text = Ok [],
     resp_json = Ok (JObj [(''output'',
        JObj (case req_context req of None \<Rightarrow> [] | Some c \<Rightarrow> c))]) \<rparr>"

definition rtEcho :: runtime where
  "rtEcho = rt0 \<lparr> fetch := echoFetch \<rparr>"

text \<open>A backend that answers every request with a status that is not ok.\<close>

definition rtUnavailable :: runtime where
  "rtUnavailable = rt0 \<lparr> fetch := (\<lambda>req. FetchResolved
     \<lparr> resp_ok = False, resp_text = Ok ''Service Unavailable'',
       resp_json = Throw (Error ''Unexpected token S in JSON at position 0'') \<rparr>) \<rparr>"

definition workNoMatch :: SubagentTask where
  "workNoMatch = \<lparr> st_id = None, st_name = ''first'', prompt = ''p1'',
     st_capabilities = [], st_context = None, constraints = None \<rparr>"

definition workCode :: SubagentTask where
  "workCode = workNoMatch \<lparr> st_name := ''second'', st_capabilities := [JStr ''code''] \<rparr>"

text \<open>
  What \<open>delegateSequential\<close> returns on the first two of these items, from the empty
  state: the failure of the first and the success of the second, and the state left.
\<close>

definition seqResults :: "SubagentResult list" where
  "seqResults =
     [\<lparr> success = False, res_taskId = [], res_output = JUndefined,
         res_artifacts = JUndefined,
         res_error = Some ''No subagent found with capabilities: '',
         res_metadata = None \<rparr>,
      \<lparr> success = True, res_taskId = ''uuid-0'', res_output = JObj [],
         res_artifacts = JUndefined, res_error = None,
         res_metadata = Some [(''duration'', JUndefined), (''tokensUsed'', JUndefined)] \<rparr>]"

definition seqState :: "unit state" where
  "seqState =
     \<lparr> tasks = [(''uuid-0'',
         \<lparr> task_id = ''uuid-0'', task_name = ''Spark: second'',
           task_description = Some ''p1'', task_type = SubagentTask,
           status = Completed, parentId = None,
           task_metadata = Some [(''subagentId'', JStr ''spark-agent''),
              (''capabilities'', JArr [JStr ''code''])],
           result = JObj [(''output'', JObj [])], error = None,
           createdAt = 1000, startedAt = Some 1001, completedAt = Some 1002 \<rparr>)],
       eventHandlers = [], world = (), uuidsDrawn = 1, clockReads = 3 \<rparr>"

text \<open>A state whose only handler throws.\<close>

definition throwingState :: "string list state" where
  "throwingState = onEvent throwingHandler (emptyState [])"

text \<open>A work item is routed to the Spark agent when its best match is that agent.\<close>

definition routedToSpark :: "jsval SubagentRegistry \<Rightarrow> SubagentTask \<Rightarrow> bool" where
  "routedToSpark agents task =
     (case findBestMatch (st_capabilities task) agents of
        None \<Rightarrow> False
      | Some agent \<Rightarrow> agent_id agent = ''spark-agent'')"

text \<open>The failure record that the \<open>catch\<close> block of \<open>execute\<close> returns.\<close>

definition failureResult :: "string \<Rightarrow> string \<Rightarrow> SubagentResult" where
  "failureResult internalId errorMessage =
     \<lparr> success = False, res_taskId = internalId, res_output = JUndefined,
       res_artifacts = JUndefined, res_error = Some errorMessage, res_metadata = None \<rparr>"

text \<open>
  What \<open>execute\<close> returns for a work item and the identifier of its internal task, when
  no handler throws.
\<close>

definition resumeResult :: "runtime \<Rightarrow> SubagentTask \<Rightarrow> string \<Rightarrow> SubagentResult" where
  "resumeResult rt task internalId =
     (case awaitResult rt task of
        Throw e \<Rightarrow> failureResult internalId (messageOr ''Unknown error'' e)
      | Ok res \<Rightarrow>
          (case successResult rt internalId res of
             Ok r \<Rightarrow> r
           | Throw e \<Rightarrow> failureResult internalId (messageOr ''Unknown error'' e)))"

text \<open>
  What \<open>delegate\<close> returns for a work item when no handler throws, \<open>k\<close> identifiers having
  been drawn before, and the results of the items of a list delegated one after the other
  in that way.
\<close>

definition delegateValue ::
  "runtime \<Rightarrow> jsval SubagentRegistry \<Rightarrow> SubagentTask \<Rightarrow> nat \<Rightarrow> SubagentResult" where
  "delegateValue rt agents task k =
     (case findBestMatch (st_capabilities task) agents of
        None \<Rightarrow> noSubagentFound task
      | Some agent \<Rightarrow>
          (if agent_id agent = ''spark-agent'' then resumeResult rt task (randomUUID rt k)
           else executeGenericSubagent (agent_id agent) task))"

fun parallelValues ::
  "runtime \<Rightarrow> jsval SubagentRegistry \<Rightarrow> nat \<Rightarrow> SubagentTask list \<Rightarrow> SubagentResult list" where
  "parallelValues rt agents k [] = []"
| "parallelValues rt agents k (task # rest) =
     delegateValue rt agents task k
       # parallelValues rt agents (if routedToSpark agents task then Suc k else k) rest"

section \<open>Planner adapter (class PlannerAdapter, src/unnamed/part_004)\<close>

definition toMCPAction :: "PlanAction \<Rightarrow> MCPAction" where
  "toMCPAction action = \<lparr> mcp_serverId = target_serverId (target action),
     mcp_name = action_name action, mcp_parameters = parameters action \<rparr>"

definition taskTypeOf :: "TargetType \<Rightarrow> TaskType" where
  "taskTypeOf ty = (case ty of McpTarget \<Rightarrow> McpTask | SubagentTarget \<Rightarrow> SubagentTask)"

text \<open>The \<open>catch\<close> block of \<open>executeAction\<close>: the task is marked failed, the error rethrown.\<close>

definition executeAction_catch ::
  "runtime \<Rightarrow> Task \<Rightarrow> exn \<Rightarrow> 'w state \<Rightarrow> unit res \<times> 'w state" where
  "executeAction_catch rt task e s =
     (case taskError rt (task_id task) (messageOr ''Action execution failed'' e) s of
        (Throw e2, s1) \<Rightarrow> (Throw e2, s1)
      | (Ok failed, s1) \<Rightarrow> (Throw e, s1))"

text \<open>
  \<open>executeSubagentAction\<close>: the task is finished at once with a marker; nothing is
  delegated (the body is a TODO in the source).
\<close>

definition executeSubagentAction ::
  "runtime \<Rightarrow> PlanAction \<Rightarrow> Task \<Rightarrow> 'w state \<Rightarrow> unit res \<times> 'w state" where
  "executeSubagentAction rt action task s =
     (case finish rt (task_id task) (JObj [(''status'', JStr ''subagent_pending'')]) s of
        (Throw e, s1) \<Rightarrow> (Throw e, s1)
      | (Ok finished, s1) \<Rightarrow> (Ok (), s1))"

text \<open>
  \<open>executeAction\<close> up to its first pending \<open>await\<close>. The child task is created and started
  before the \<open>try\<close>. An MCP action then waits for the answer of the MCP client; a subagent
  action runs \<open>executeSubagentAction\<close>, which has no pending \<open>await\<close>.
\<close>

definition executeAction_begin ::
  "runtime \<Rightarrow> string \<Rightarrow> PlanAction \<Rightarrow> 'w state
     \<Rightarrow> (unit, PlanAction \<times> Task) promise \<times> 'w state" where
  "executeAction_begin rt parentTaskId action s =
     (case create rt \<lparr> init_name = action_name action,
               init_description = Some (action_description action),
               init_type = taskTypeOf (target_type (target action)),
               init_parentId = Some parentTaskId,
               init_metadata = Some [(''actionId'', JStr (action_id action))],
               init_result = JUndefined, init_error = None,
               init_startedAt = None, init_completedAt = None \<rparr> s of
        (Throw e, s1) \<Rightarrow> (Rejected e, s1)
      | (Ok task, s1) \<Rightarrow>
          (case start rt (task_id task) s1 of
             (Throw e, s2) \<Rightarrow> (Rejected e, s2)
           | (Ok started, s2) \<Rightarrow>
               (case target_type (target action) of
                  McpTarget \<Rightarrow> (Waiting (action, task), s2)
                | SubagentTarget \<Rightarrow>
                    (case executeSubagentAction rt action task s2 of
                       (Ok u, s3) \<Rightarrow> (Fulfilled (), s3)
                     | (Throw e, s3) \<Rightarrow>
                         (case executeAction_catch rt task e s3 of
                            (r, s4) \<Rightarrow> (settled r, s4))))))"

text \<open>
  \<open>executeAction\<close> of an MCP action once the MCP client has answered. \<open>new Error(m)\<close> with
  \<open>m\<close> undefined has the empty message.
\<close>

definition executeAction_resume ::
  "runtime \<Rightarrow> PlanAction \<times> Task \<Rightarrow> 'w state \<Rightarrow> unit res \<times> 'w state" where
  "executeAction_resume rt pending s =
     (case pending of (action, task) \<Rightarrow>
        (let response = mcpExecuteAction rt (toMCPAction action) in
           if \<not> mcp_success response then
             executeAction_catch rt task
               (Error (case mcp_error response of None \<Rightarrow> [] | Some m \<Rightarrow> m)) s
           else
             (case finish rt (task_id task) (mcp_data response) s of
                (Throw e, s1) \<Rightarrow> executeAction_catch rt task e s1
              | (Ok finished, s1) \<Rightarrow> (Ok (), s1))))"

definition orderOf :: "PlanAction \<Rightarrow> int" where
  "orderOf action = (case action_order action of None \<Rightarrow> 0 | Some n \<Rightarrow> n)"

text \<open>
  The \<open>for\<close> loop of \<open>groupByOrder\<close> over the \<open>Map<number, PlanAction[]>\<close>, then the sort
  of its entries by key. An order is an integer here.
\<close>

fun groupByOrder_loop ::
  "PlanAction list \<Rightarrow> (int \<times> PlanAction list) list \<Rightarrow> (int \<times> PlanAction list) list" where
  "groupByOrder_loop [] groups = groups"
| "groupByOrder_loop (action # rest) groups =
     (let ord = orderOf action;
          grp = (case map_of groups ord of None \<Rightarrow> [] | Some g \<Rightarrow> g)
      in groupByOrder_loop rest (AList.update ord (grp @ [action]) groups))"

definition groupByOrder :: "PlanAction list \<Rightarrow> PlanAction list list" where
  "groupByOrder actionList = map snd (sort_key fst (groupByOrder_loop actionList []))"

text \<open>
  The \<open>for\<close> loop of \<open>execute\<close> over the groups: the actions of a group are all begun,
  then \<open>Promise.all\<close> is awaited; its rejection leaves the loop.
\<close>

fun runGroups ::
  "runtime \<Rightarrow> ('w state \<Rightarrow> nat) \<Rightarrow> string \<Rightarrow> PlanAction list list \<Rightarrow> 'w state
     \<Rightarrow> unit res \<times> 'w state" where
  "runGroups rt pick parentTaskId [] s = (Ok (), s)"
| "runGroups rt pick parentTaskId (grp # rest) s =
     (case startAll (executeAction_begin rt parentTaskId) grp s of
        (ps, s1) \<Rightarrow>
          (case promiseAll (executeAction_resume rt) pick ps s1 of
             (Throw e, s2) \<Rightarrow> (Throw e, s2)
           | (Ok done, s2) \<Rightarrow> runGroups rt pick parentTaskId rest s2))"

definition plan_catch ::
  "runtime \<Rightarrow> string \<Rightarrow> exn \<Rightarrow> 'w state \<Rightarrow> unit res \<times> 'w state" where
  "plan_catch rt parentTaskId e s =
     (case taskError rt parentTaskId (messageOr ''Plan execution failed'' e) s of
        (Throw e2, s1) \<Rightarrow> (Throw e2, s1)
      | (Ok failed, s1) \<Rightarrow> (Throw e, s1))"

text \<open>\<open>PlannerAdapter.execute\<close>.\<close>

definition plan_execute ::
  "runtime \<Rightarrow> ('w state \<Rightarrow> nat) \<Rightarrow> MultiActionPlan \<Rightarrow> 'w state \<Rightarrow> unit res \<times> 'w state" where
  "plan_execute rt pick plan s =
     (case create rt \<lparr> init_name = plan_name plan,
               init_description = Some (plan_description plan),
               init_type = PlanTask,
               init_parentId = None,
               init_metadata = Some [(''planId'', JStr (plan_id plan))],
               init_result = JUndefined, init_error = None,
               init_startedAt = None, init_completedAt = None \<rparr> s of
        (Throw e, s1) \<Rightarrow> (Throw e, s1)
      | (Ok parentTask, s1) \<Rightarrow>
          (case start rt (task_id parentTask) s1 of
             (Throw e, s2) \<Rightarrow> (Throw e, s2)
           | (Ok started, s2) \<Rightarrow>
               (case runGroups rt pick (task_id parentTask)
                       (groupByOrder (actions plan)) s2 of
                  (Throw e, s3) \<Rightarrow> plan_catch rt (task_id parentTask) e s3
                | (Ok u, s3) \<Rightarrow>
                    (case finish rt (task_id parentTask)
                            (JObj [(''status'', JStr ''completed'')]) s3 of
                       (Throw e, s4) \<Rightarrow> plan_catch rt (task_id parentTask) e s4
                     | (Ok finished, s4) \<Rightarrow> (Ok (), s4)))))"

text \<open>
  A plan whose only action targets a subagent, and the work item that \<open>decomposeForSubagents\<close>
  derives from that action.
\<close>

definition subagentPlan :: MultiActionPlan where
  "subagentPlan = \<lparr> plan_id = ''plan-1'', plan_name = ''Test Plan'',
     plan_description = ''A test plan'', actions = [checkoutAction], plan_metadata = None \<rparr>"

definition checkoutWork :: SubagentTask where
  "checkoutWork = \<lparr> st_id = Some ''1'', st_name = ''Checkout'',
     prompt = ''Develop and test the checkout flow'',
     st_capabilities = [JStr ''code'', JStr ''testing''], st_context = Some [],
     constraints = Some \<lparr> maxDuration = None, maxTokens = None, outputFormat = None \<rparr> \<rparr>"

text \<open>
  What the task store records of each task for good: its key, its parent and its
  metadata, in insertion order. The mutators \<open>start\<close>, \<open>finish\<close> and \<open>error\<close> leave it as
  it is.
\<close>

definition skeleton ::
  "'w state \<Rightarrow> (string \<times> string option \<times> (string \<times> jsval) list option) list" where
  "skeleton s = map (\<lambda>kt. (fst kt, parentId (snd kt), task_metadata (snd kt))) (tasks s)"

text \<open>
  An action fails when it is an MCP action and the MCP client answers without success;
  \<open>executeSubagentAction\<close> itself never fails.
\<close>

definition actionFails :: "runtime \<Rightarrow> PlanAction \<Rightarrow> bool" where
  "actionFails rt action =
     (target_type (target action) = McpTarget
      \<and> \<not> mcp_success (mcpExecuteAction rt (toMCPAction action)))"

text \<open>
  The records of the child tasks of a list of actions, created in that order under the
  parent \<open>parentTaskId\<close>, the first with the \<open>k\<close>-th identifier.
\<close>

fun childEntries ::
  "runtime \<Rightarrow> string \<Rightarrow> nat \<Rightarrow> PlanAction list
     \<Rightarrow> (string \<times> string option \<times> (string \<times> jsval) list option) list" where
  "childEntries rt parentTaskId k [] = []"
| "childEntries rt parentTaskId k (action # rest) =
     (randomUUID rt k, Some parentTaskId, Some [(''actionId'', JStr (action_id action))])
       # childEntries rt parentTaskId (Suc k) rest"

text \<open>
  A plan of four MCP actions with the orders 2, 0, absent and 1, as in the example of the
  specification.
\<close>

definition mcpAction :: "string \<Rightarrow> int option \<Rightarrow> PlanAction" where
  "mcpAction ident ord = \<lparr> action_id = ident, action_name = ''Call API'',
     action_description = ''Fetch data'',
     target = \<lparr> target_type = McpTarget, target_serverId = Some ''api-server'',
       target_agentId = None \<rparr>,
     parameters = [], action_order = ord, dependsOn = None \<rparr>"

definition orderedPlan :: MultiActionPlan where
  "orderedPlan = \<lparr> plan_id = ''plan-2'', plan_name = ''Ordered Plan'',
     plan_description = ''Four actions'',
     actions = [mcpAction ''a'' (Some 2), mcpAction ''b'' (Some 0), mcpAction ''c'' None,
       mcpAction ''d'' (Some 1)],
     plan_metadata = None \<rparr>"

section \<open>Properties of the task manager\<close>

lemma emitAndReturn_tasks [simp]: "tasks (snd (emitAndReturn event v s)) = tasks s"
  by (simp add: emitAndReturn_def emit_def split: prod.splits option.splits)

lemma emitAndReturn_handlers [simp]:
  "eventHandlers (snd (emitAndReturn event v s)) = eventHandlers s"
  by (simp add: emitAndReturn_def emit_def split: prod.splits option.splits)

lemma map_of_update: "map_of (AList.update k v al) = (map_of al)(k \<mapsto> v)"
  by (rule update_conv')

lemma start_tasks:
  "map_of (tasks s) taskId = Some t \<Longrightarrow>
   tasks (snd (start rt taskId s)) =
     AList.update taskId (t \<lparr> status := Running, startedAt := Some (dateNow rt (clockReads s)) \<rparr>)
       (tasks s)"
  by (simp add: start_def Let_def)

lemma update_tasks:
  "map_of (tasks s) taskId = Some t \<Longrightarrow>
   tasks (snd (update taskId p s)) = AList.update taskId (spreadPatch t p) (tasks s)"
  by (simp add: update_def Let_def)

lemma finish_tasks:
  "map_of (tasks s) taskId = Some t \<Longrightarrow>
   tasks (snd (finish rt taskId r s)) =
     AList.update taskId (t \<lparr> status := Completed,
        completedAt := Some (dateNow rt (clockReads s)), result := r \<rparr>) (tasks s)"
  by (simp add: finish_def Let_def)

lemma taskError_tasks:
  "map_of (tasks s) taskId = Some t \<Longrightarrow>
   tasks (snd (taskError rt taskId err s)) =
     AList.update taskId (t \<lparr> status := Failed,
        completedAt := Some (dateNow rt (clockReads s)), error := Some err \<rparr>) (tasks s)"
  by (simp add: taskError_def Let_def)

lemma show_nat_digit:
  "show_nat 0 = ''0''" "show_nat 1 = ''1''" "show_nat 2 = ''2''" "show_nat 3 = ''3''"
  "show_nat 4 = ''4''" "show_nat 5 = ''5''" "show_nat 6 = ''6''" "show_nat 7 = ''7''"
  "show_nat (Suc 0) = ''1''"
  by (subst show_nat.simps, simp add: digit_def)+

lemma pendingState_eval:
  "pendingState = \<lparr> tasks = [(''uuid-0'', completedTask \<lparr> status := Pending,
       result := JUndefined, startedAt := None, completedAt := None \<rparr>)],
     eventHandlers = [], world = (), uuidsDrawn = 1, clockReads = 1 \<rparr>"
  by (simp add: pendingState_def create_def rt0_def testInit_def emptyState_def
      emitAndReturn_def emit_def Let_def show_nat_digit completedTask_def)

lemma completedState_eval:
  "completedState = \<lparr> tasks = [(''uuid-0'', completedTask)],
     eventHandlers = [], world = (), uuidsDrawn = 1, clockReads = 3 \<rparr>"
  by (simp add: completedState_def pendingState_eval start_def finish_def rt0_def
      emitAndReturn_def emit_def Let_def completedTask_def)

lemma handlerState_eval:
  "handlerState = \<lparr> tasks = [(''uuid-0'', completedTask \<lparr> status := Pending,
       result := JUndefined, startedAt := None, completedAt := None \<rparr>)],
     eventHandlers = [throwingHandler, loggingHandler], world = [],
     uuidsDrawn = 1, clockReads = 1 \<rparr>"
  by (simp add: handlerState_def onEvent_def create_def rt0_def testInit_def emptyState_def
      emitAndReturn_def emit_def Let_def show_nat_digit completedTask_def)

lemmas eval_defs = getTask_def start_def finish_def taskError_def update_def
  emitAndReturn_def emit_def Let_def rt0_def completedTask_def

text \<open>
  Claim C7. On an identifier that the store does not hold, each of \<open>start\<close>, \<open>update\<close>,
  \<open>finish\<close> and \<open>error\<close> returns \<open>undefined\<close> without throwing, and the whole state is the
  one before the call: the tasks, and the world of the handlers, whatever the handlers
  are, so no event has been delivered.
\<close>

theorem mutators_unknown_id_noop:
  assumes "taskId \<notin> fst ` set (tasks s)"
  shows "start rt taskId s = (Ok None, s)
       \<and> update taskId progress s = (Ok None, s)
       \<and> finish rt taskId res s = (Ok None, s)
       \<and> taskError rt taskId err s = (Ok None, s)"
proof -
  have "map_of (tasks s) taskId = None"
    using assms by (simp add: map_of_eq_None_iff)
  then show ?thesis
    by (simp add: start_def update_def finish_def taskError_def)
qed

theorem mutators_unknown_id_noop_witness:
  "''uuid-1'' \<notin> fst ` set (tasks pendingState)
   \<and> start rt0 ''uuid-1'' pendingState = (Ok None, pendingState)
   \<and> update ''uuid-1'' statusPatch pendingState = (Ok None, pendingState)
   \<and> finish rt0 ''uuid-1'' JUndefined pendingState = (Ok None, pendingState)
   \<and> taskError rt0 ''uuid-1'' ''failed'' pendingState = (Ok None, pendingState)"
proof -
  have h: "''uuid-1'' \<notin> fst ` set (tasks pendingState)"
    by (simp add: pendingState_eval)
  from mutators_unknown_id_noop [OF h, where rt = rt0 and progress = statusPatch
      and res = JUndefined and err = "''failed''"] h
  show ?thesis by simp
qed

text \<open>
  Claim C1 fails as stated: the mutators have no guard on the current status. \<open>finish\<close>
  takes the pending task \<open>uuid-0\<close> directly to \<open>completed\<close>, and \<open>start\<close> takes the
  completed task \<open>uuid-0\<close> back to \<open>running\<close>, overwriting \<open>startedAt\<close>.
\<close>

theorem terminal_and_pending_unguarded_counterexample:
  "map_option status (getTask ''uuid-0'' pendingState) = Some Pending
   \<and> map_option status
        (getTask ''uuid-0'' (snd (finish rt0 ''uuid-0'' JUndefined pendingState)))
       = Some Completed
   \<and> getTask ''uuid-0'' completedState = Some completedTask
   \<and> getTask ''uuid-0'' (snd (start rt0 ''uuid-0'' completedState))
       = Some (completedTask \<lparr> status := Running, startedAt := Some 1003 \<rparr>)"
  by (simp add: pendingState_eval completedState_eval eval_defs)

text \<open>
  Claim C1 as amended. For a task that the store holds, whatever its current status:
  \<open>start\<close> sets \<open>status\<close> to running and \<open>startedAt\<close>; \<open>finish\<close> sets \<open>status\<close> to
  completed, \<open>completedAt\<close> and \<open>result\<close>; \<open>error\<close> sets \<open>status\<close> to failed,
  \<open>completedAt\<close> and \<open>error\<close>; \<open>update\<close> overwrites the fields its argument carries.
  The other fields of the task, and every other task, are left as they were.
\<close>

theorem mutators_overwrite_any_status:
  assumes "getTask taskId s = Some t"
  shows "getTask taskId (snd (start rt taskId s))
           = Some (t \<lparr> status := Running, startedAt := Some (dateNow rt (clockReads s)) \<rparr>)
       \<and> getTask taskId (snd (finish rt taskId res s))
           = Some (t \<lparr> status := Completed,
                completedAt := Some (dateNow rt (clockReads s)), result := res \<rparr>)
       \<and> getTask taskId (snd (taskError rt taskId err s))
           = Some (t \<lparr> status := Failed,
                completedAt := Some (dateNow rt (clockReads s)), error := Some err \<rparr>)
       \<and> getTask taskId (snd (update taskId progress s)) = Some (spreadPatch t progress)
       \<and> (\<forall>other. other \<noteq> taskId \<longrightarrow>
              getTask other (snd (start rt taskId s)) = getTask other s
            \<and> getTask other (snd (finish rt taskId res s)) = getTask other s
            \<and> getTask other (snd (taskError rt taskId err s)) = getTask other s
            \<and> getTask other (snd (update taskId progress s)) = getTask other s)"
proof -
  have t: "map_of (tasks s) taskId = Some t" using assms by (simp add: getTask_def)
  show ?thesis
    unfolding getTask_def
    by (simp add: start_tasks [OF t] finish_tasks [OF t] taskError_tasks [OF t]
        update_tasks [OF t] map_of_update)
qed

theorem mutators_overwrite_any_status_witness:
  "getTask ''uuid-0'' completedState = Some completedTask
   \<and> getTask ''uuid-0'' (snd (start rt0 ''uuid-0'' completedState))
       = Some (completedTask \<lparr> status := Running,
            startedAt := Some (dateNow rt0 (clockReads completedState)) \<rparr>)
   \<and> getTask ''uuid-0'' (snd (taskError rt0 ''uuid-0'' ''late'' completedState))
       = Some (completedTask \<lparr> status := Failed,
            completedAt := Some (dateNow rt0 (clockReads completedState)),
            error := Some ''late'' \<rparr>)
   \<and> ''uuid-7'' \<noteq> ''uuid-0''
   \<and> getTask ''uuid-7'' (snd (start rt0 ''uuid-0'' completedState))
       = getTask ''uuid-7'' completedState"
proof -
  have h: "getTask ''uuid-0'' completedState = Some completedTask"
    by (simp add: completedState_eval getTask_def)
  note T = mutators_overwrite_any_status [OF h, where rt = rt0 and err = "''late''"
      and res = JUndefined and progress = statusPatch]
  have a: "getTask ''uuid-0'' (snd (start rt0 ''uuid-0'' completedState))
       = Some (completedTask \<lparr> status := Running,
            startedAt := Some (dateNow rt0 (clockReads completedState)) \<rparr>)"
    by (rule T [THEN conjunct1])
  have b: "getTask ''uuid-0'' (snd (taskError rt0 ''uuid-0'' ''late'' completedState))
       = Some (completedTask \<lparr> status := Failed,
            completedAt := Some (dateNow rt0 (clockReads completedState)),
            error := Some ''late'' \<rparr>)"
    by (rule T [THEN conjunct2, THEN conjunct2, THEN conjunct1])
  have c: "getTask ''uuid-7'' (snd (start rt0 ''uuid-0'' completedState))
          = getTask ''uuid-7'' completedState"
    using T [THEN conjunct2, THEN conjunct2, THEN conjunct2, THEN conjunct2, rule_format,
        of "''uuid-7''"] by simp
  show ?thesis using h a b c by simp
qed

lemma forEach_handler_append:
  "forEach_handler hs1 event w = (None, w1) \<Longrightarrow>
   forEach_handler (hs1 @ hs2) event w = forEach_handler hs2 event w1"
  by (induction hs1 arbitrary: w) (auto split: prod.splits option.splits)

text \<open>
  Claim C3 fails as stated: \<open>emit\<close> does not catch. With a throwing handler subscribed
  before a logging one, the \<open>started\<close> event reaches neither the log nor the caller of
  \<open>start\<close>, which gets the exception instead, after the task has been stored as running.
  With the logging handler alone the event is logged.
\<close>

theorem throwing_handler_blocks_later_counterexample:
  "eventHandlers handlerState = [throwingHandler, loggingHandler]
   \<and> emit startedEvent handlerState = (Some (Error ''handler failed''), handlerState)
   \<and> world handlerState = []
   \<and> fst (start rt0 ''uuid-0'' handlerState) = Throw (Error ''handler failed'')
   \<and> world (snd (start rt0 ''uuid-0'' handlerState)) = []
   \<and> world (snd (start rt0 ''uuid-0''
        (handlerState \<lparr> eventHandlers := [loggingHandler] \<rparr>))) = [''uuid-0'']"
  by (simp add: handlerState_eval eval_defs throwingHandler_def loggingHandler_def)

lemma emitAndReturn_throws:
  assumes "eventHandlers s = before @ handler # later"
    and "forEach_handler before event (world s) = (None, w1)"
    and "handler event w1 = (Some e, w2)"
  shows "emitAndReturn event v s = (Throw e, s \<lparr> world := w2 \<rparr>)"
  using assms(1,3) forEach_handler_append [OF assms(2), of "handler # later"]
  by (simp add: emitAndReturn_def emit_def)

lemma mixedState_eval:
  "mixedState = \<lparr> tasks = [(''uuid-0'', completedTask \<lparr> status := Pending,
       result := JUndefined, startedAt := None, completedAt := None \<rparr>)],
     eventHandlers = [loggingHandler, throwingHandler, loggingHandler], world = [],
     uuidsDrawn = 1, clockReads = 1 \<rparr>"
  by (simp add: mixedState_def onEvent_def create_def rt0_def testInit_def emptyState_def
      emitAndReturn_def emit_def Let_def show_nat_digit completedTask_def)

text \<open>
  Claim C3 as amended. \<open>emit\<close> calls the handlers in subscription order. When the handlers
  subscribed first all return and the next one throws, delivery stops there: the outcome
  is that exception and the world as the throwing handler left it, whatever handlers are
  subscribed after it, so none of them is invoked. As long as no handler has thrown,
  delivery goes on with the remaining handlers. The exception leaves the mutator that
  emitted the event: \<open>create\<close>, \<open>start\<close>, \<open>update\<close>, \<open>finish\<close> and \<open>error\<close> then raise it
  instead of returning the task, and the state they leave holds the task as they stored
  it before emitting, the world being the one the throwing handler left.
\<close>

theorem emit_stops_at_first_throw:
  assumes "forEach_handler before event (world s) = (None, w1)"
  shows "(eventHandlers s = before @ handler # later \<and> handler event w1 = (Some e, w2)
            \<longrightarrow> emit event s = (Some e, s \<lparr> world := w2 \<rparr>))
       \<and> (eventHandlers s = before @ later
            \<longrightarrow> emit event s
                = (case forEach_handler later event w1 of
                     (thrown, w') \<Rightarrow> (thrown, s \<lparr> world := w' \<rparr>)))
       \<and> (eventHandlers s = before @ handler # later \<and> handler event w1 = (Some e, w2)
          \<and> newTask = \<lparr> task_id = randomUUID rt (uuidsDrawn s),
               task_name = init_name init, task_description = init_description init,
               task_type = init_type init, status = Pending,
               parentId = init_parentId init, task_metadata = init_metadata init,
               result = init_result init, error = init_error init,
               createdAt = dateNow rt (clockReads s),
               startedAt = init_startedAt init, completedAt = init_completedAt init \<rparr>
          \<and> event = \<lparr> event_type = Created, event_task = newTask, event_error = None \<rparr>
            \<longrightarrow> create rt init s
                = (Throw e, s \<lparr> tasks := AList.update (randomUUID rt (uuidsDrawn s)) newTask
                                   (tasks s),
                               uuidsDrawn := Suc (uuidsDrawn s),
                               clockReads := Suc (clockReads s), world := w2 \<rparr>))
       \<and> (eventHandlers s = before @ handler # later \<and> handler event w1 = (Some e, w2)
          \<and> map_of (tasks s) taskId = Some task
          \<and> event = \<lparr> event_type = Started,
               event_task = task \<lparr> status := Running,
                 startedAt := Some (dateNow rt (clockReads s)) \<rparr>,
               event_error = None \<rparr>
            \<longrightarrow> start rt taskId s
                = (Throw e, s \<lparr> tasks := AList.update taskId
                                   (task \<lparr> status := Running,
                                      startedAt := Some (dateNow rt (clockReads s)) \<rparr>)
                                   (tasks s),
                               clockReads := Suc (clockReads s), world := w2 \<rparr>))
       \<and> (eventHandlers s = before @ handler # later \<and> handler event w1 = (Some e, w2)
          \<and> map_of (tasks s) taskId = Some task
          \<and> event = \<lparr> event_type = Updated, event_task = spreadPatch task progress,
               event_error = None \<rparr>
            \<longrightarrow> update taskId progress s
                = (Throw e, s \<lparr> tasks := AList.update taskId (spreadPatch task progress)
                                   (tasks s),
                               world := w2 \<rparr>))
       \<and> (eventHandlers s = before @ handler # later \<and> handler event w1 = (Some e, w2)
          \<and> map_of (tasks s) taskId = Some task
          \<and> event = \<lparr> event_type = Finished,
               event_task = task \<lparr> status := Completed,
                 completedAt := Some (dateNow rt (clockReads s)), result := res \<rparr>,
               event_error = None \<rparr>
            \<longrightarrow> finish rt taskId res s
                = (Throw e, s \<lparr> tasks := AList.update taskId
                                   (task \<lparr> status := Completed,
                                      completedAt := Some (dateNow rt (clockReads s)),
                                      result := res \<rparr>)
                                   (tasks s),
                               clockReads := Suc (clockReads s), world := w2 \<rparr>))
       \<and> (eventHandlers s = before @ handler # later \<and> handler event w1 = (Some e, w2)
          \<and> map_of (tasks s) taskId = Some task
          \<and> event = \<lparr> event_type = ErrorEvent,
               event_task = task \<lparr> status := Failed,
                 completedAt := Some (dateNow rt (clockReads s)), error := Some err \<rparr>,
               event_error = Some err \<rparr>
            \<longrightarrow> taskError rt taskId err s
                = (Throw e, s \<lparr> tasks := AList.update taskId
                                   (task \<lparr> status := Failed,
                                      completedAt := Some (dateNow rt (clockReads s)),
                                      error := Some err \<rparr>)
                                   (tasks s),
                               clockReads := Suc (clockReads s), world := w2 \<rparr>))"
proof (intro conjI impI)
  note app = forEach_handler_append [OF assms]
  show "emit event s = (Some e, s \<lparr> world := w2 \<rparr>)"
    if "eventHandlers s = before @ handler # later \<and> handler event w1 = (Some e, w2)"
    using that app [of "handler # later"] by (simp add: emit_def)
  show "emit event s
      = (case forEach_handler later event w1 of
           (thrown, w') \<Rightarrow> (thrown, s \<lparr> world := w' \<rparr>))"
    if "eventHandlers s = before @ later"
    using that app [of later] by (simp add: emit_def)
  show "create rt init s
      = (Throw e, s \<lparr> tasks := AList.update (randomUUID rt (uuidsDrawn s)) newTask (tasks s),
                     uuidsDrawn := Suc (uuidsDrawn s),
                     clockReads := Suc (clockReads s), world := w2 \<rparr>)"
    if "eventHandlers s = before @ handler # later \<and> handler event w1 = (Some e, w2)
          \<and> newTask = \<lparr> task_id = randomUUID rt (uuidsDrawn s),
               task_name = init_name init, task_description = init_description init,
               task_type = init_type init, status = Pending,
               parentId = init_parentId init, task_metadata = init_metadata init,
               result = init_result init, error = init_error init,
               createdAt = dateNow rt (clockReads s),
               startedAt = init_startedAt init, completedAt = init_completedAt init \<rparr>
          \<and> event = \<lparr> event_type = Created, event_task = newTask, event_error = None \<rparr>"
  proof -
    note hs = that [THEN conjunct1]
    note h = that [THEN conjunct2, THEN conjunct1]
    note nt = that [THEN conjunct2, THEN conjunct2, THEN conjunct1]
    note ev = that [THEN conjunct2, THEN conjunct2, THEN conjunct2]
    have "forEach_handler (eventHandlers s) event (world s) = (Some e, w2)"
      using hs h app [of "handler # later"] by simp
    then have "forEach_handler (eventHandlers s)
        \<lparr> event_type = Created, event_task = newTask, event_error = None \<rparr> (world s)
        = (Some e, w2)"
      unfolding ev .
    then show ?thesis
      unfolding nt by (simp add: create_def emitAndReturn_def emit_def Let_def)
  qed
  show "start rt taskId s
      = (Throw e, s \<lparr> tasks := AList.update taskId
                         (task \<lparr> status := Running,
                            startedAt := Some (dateNow rt (clockReads s)) \<rparr>)
                         (tasks s),
                     clockReads := Suc (clockReads s), world := w2 \<rparr>)"
    if "eventHandlers s = before @ handler # later \<and> handler event w1 = (Some e, w2)
          \<and> map_of (tasks s) taskId = Some task
          \<and> event = \<lparr> event_type = Started,
               event_task = task \<lparr> status := Running,
                 startedAt := Some (dateNow rt (clockReads s)) \<rparr>,
               event_error = None \<rparr>"
  proof -
    note hs = that [THEN conjunct1]
    note h = that [THEN conjunct2, THEN conjunct1]
    note look = that [THEN conjunct2, THEN conjunct2, THEN conjunct1]
    note ev = that [THEN conjunct2, THEN conjunct2, THEN conjunct2]
    have "emitAndReturn \<lparr> event_type = Started, event_task = task \<lparr> status := Running, startedAt := Some (dateNow rt (clockReads s)) \<rparr>, event_error = None \<rparr>
        (Some (task \<lparr> status := Running, startedAt := Some (dateNow rt (clockReads s)) \<rparr>))
        (s \<lparr> tasks := AList.update taskId (task \<lparr> status := Running, startedAt := Some (dateNow rt (clockReads s)) \<rparr>) (tasks s), clockReads := Suc (clockReads s) \<rparr>)
      = (Throw e, (s \<lparr> tasks := AList.update taskId (task \<lparr> status := Running, startedAt := Some (dateNow rt (clockReads s)) \<rparr>) (tasks s), clockReads := Suc (clockReads s) \<rparr>) \<lparr> world := w2 \<rparr>)"
      by (rule emitAndReturn_throws [where before = before and handler = handler
            and later = later and ?w1.0 = w1])
        (simp_all add: hs h [unfolded ev] assms [unfolded ev])
    then show ?thesis by (simp add: start_def look Let_def)
  qed
  show "update taskId progress s
      = (Throw e, s \<lparr> tasks := AList.update taskId (spreadPatch task progress) (tasks s),
                     world := w2 \<rparr>)"
    if "eventHandlers s = before @ handler # later \<and> handler event w1 = (Some e, w2)
          \<and> map_of (tasks s) taskId = Some task
          \<and> event = \<lparr> event_type = Updated, event_task = spreadPatch task progress,
               event_error = None \<rparr>"
  proof -
    note hs = that [THEN conjunct1]
    note h = that [THEN conjunct2, THEN conjunct1]
    note look = that [THEN conjunct2, THEN conjunct2, THEN conjunct1]
    note ev = that [THEN conjunct2, THEN conjunct2, THEN conjunct2]
    have "emitAndReturn \<lparr> event_type = Updated, event_task = spreadPatch task progress, event_error = None \<rparr>
        (Some (spreadPatch task progress))
        (s \<lparr> tasks := AList.update taskId (spreadPatch task progress) (tasks s) \<rparr>)
      = (Throw e, (s \<lparr> tasks := AList.update taskId (spreadPatch task progress) (tasks s) \<rparr>) \<lparr> world := w2 \<rparr>)"
      by (rule emitAndReturn_throws [where before = before and handler = handler
            and later = later and ?w1.0 = w1])
        (simp_all add: hs h [unfolded ev] assms [unfolded ev])
    then show ?thesis by (simp add: update_def look Let_def)
  qed
  show "finish rt taskId res s
      = (Throw e, s \<lparr> tasks := AList.update taskId
                         (task \<lparr> status := Completed,
                            completedAt := Some (dateNow rt (clockReads s)),
                            result := res \<rparr>)
                         (tasks s),
                     clockReads := Suc (clockReads s), world := w2 \<rparr>)"
    if "eventHandlers s = before @ handler # later \<and> handler event w1 = (Some e, w2)
          \<and> map_of (tasks s) taskId = Some task
          \<and> event = \<lparr> event_type = Finished,
               event_task = task \<lparr> status := Completed,
                 completedAt := Some (dateNow rt (clockReads s)), result := res \<rparr>,
               event_error = None \<rparr>"
  proof -
    note hs = that [THEN conjunct1]
    note h = that [THEN conjunct2, THEN conjunct1]
    note look = that [THEN conjunct2, THEN conjunct2, THEN conjunct1]
    note ev = that [THEN conjunct2, THEN conjunct2, THEN conjunct2]
    have "emitAndReturn \<lparr> event_type = Finished, event_task = task \<lparr> status := Completed, completedAt := Some (dateNow rt (clockReads s)), result := res \<rparr>, event_error = None \<rparr>
        (Some (task \<lparr> status := Completed, completedAt := Some (dateNow rt (clockReads s)), result := res \<rparr>))
        (s \<lparr> tasks := AList.update taskId (task \<lparr> status := Completed, completedAt := Some (dateNow rt (clockReads s)), result := res \<rparr>) (tasks s), clockReads := Suc (clockReads s) \<rparr>)
      = (Throw e, (s \<lparr> tasks := AList.update taskId (task \<lparr> status := Completed, completedAt := Some (dateNow rt (clockReads s)), result := res \<rparr>) (tasks s), clockReads := Suc (clockReads s) \<rparr>) \<lparr> world := w2 \<rparr>)"
      by (rule emitAndReturn_throws [where before = before and handler = handler
            and later = later and ?w1.0 = w1])
        (simp_all add: hs h [unfolded ev] assms [unfolded ev])
    then show ?thesis by (simp add: finish_def look Let_def)
  qed
  show "taskError rt taskId err s
      = (Throw e, s \<lparr> tasks := AList.update taskId
                         (task \<lparr> status := Failed,
                            completedAt := Some (dateNow rt (clockReads s)),
                            error := Some err \<rparr>)
                         (tasks s),
                     clockReads := Suc (clockReads s), world := w2 \<rparr>)"
    if "eventHandlers s = before @ handler # later \<and> handler event w1 = (Some e, w2)
          \<and> map_of (tasks s) taskId = Some task
          \<and> event = \<lparr> event_type = ErrorEvent,
               event_task = task \<lparr> status := Failed,
                 completedAt := Some (dateNow rt (clockReads s)), error := Some err \<rparr>,
               event_error = Some err \<rparr>"
  proof -
    note hs = that [THEN conjunct1]
    note h = that [THEN conjunct2, THEN conjunct1]
    note look = that [THEN conjunct2, THEN conjunct2, THEN conjunct1]
    note ev = that [THEN conjunct2, THEN conjunct2, THEN conjunct2]
    have "emitAndReturn \<lparr> event_type = ErrorEvent, event_task = task \<lparr> status := Failed, completedAt := Some (dateNow rt (clockReads s)), error := Some err \<rparr>, event_error = Some err \<rparr>
        (Some (task \<lparr> status := Failed, completedAt := Some (dateNow rt (clockReads s)), error := Some err \<rparr>))
        (s \<lparr> tasks := AList.update taskId (task \<lparr> status := Failed, completedAt := Some (dateNow rt (clockReads s)), error := Some err \<rparr>) (tasks s), clockReads := Suc (clockReads s) \<rparr>)
      = (Throw e, (s \<lparr> tasks := AList.update taskId (task \<lparr> status := Failed, completedAt := Some (dateNow rt (clockReads s)), error := Some err \<rparr>) (tasks s), clockReads := Suc (clockReads s) \<rparr>) \<lparr> world := w2 \<rparr>)"
      by (rule emitAndReturn_throws [where before = before and handler = handler
            and later = later and ?w1.0 = w1])
        (simp_all add: hs h [unfolded ev] assms [unfolded ev])
    then show ?thesis by (simp add: taskError_def look Let_def)
  qed
qed

theorem emit_stops_at_first_throw_witness:
  "eventHandlers mixedState = [loggingHandler] @ throwingHandler # [loggingHandler]
   \<and> forEach_handler [loggingHandler] startedEvent (world mixedState) = (None, [''uuid-0''])
   \<and> throwingHandler startedEvent [''uuid-0''] = (Some (Error ''handler failed''), [''uuid-0''])
   \<and> emit startedEvent mixedState
       = (Some (Error ''handler failed''), mixedState \<lparr> world := [''uuid-0''] \<rparr>)
   \<and> emit startedEvent (mixedState \<lparr> eventHandlers := [loggingHandler] @ [loggingHandler] \<rparr>)
       = (None, mixedState \<lparr> eventHandlers := [loggingHandler] @ [loggingHandler],
                  world := [''uuid-0'', ''uuid-0''] \<rparr>)
   \<and> map_of (tasks mixedState) ''uuid-0'' = Some pendingTask
   \<and> create rt0 testInit mixedState
       = (Throw (Error ''handler failed''),
          mixedState \<lparr> tasks := [(''uuid-0'', pendingTask),
                          (''uuid-1'', pendingTask \<lparr> task_id := ''uuid-1'', createdAt := 1001 \<rparr>)],
                       uuidsDrawn := 2, clockReads := 2, world := [''uuid-1''] \<rparr>)
   \<and> start rt0 ''uuid-0'' mixedState
       = (Throw (Error ''handler failed''),
          mixedState \<lparr> tasks := [(''uuid-0'',
                          pendingTask \<lparr> status := Running, startedAt := Some 1001 \<rparr>)],
                       clockReads := 2, world := [''uuid-0''] \<rparr>)
   \<and> update ''uuid-0'' (statusPatch \<lparr> patch_status := Some Failed \<rparr>) mixedState
       = (Throw (Error ''handler failed''),
          mixedState \<lparr> tasks := [(''uuid-0'', pendingTask \<lparr> status := Failed \<rparr>)],
                       world := [''uuid-0''] \<rparr>)
   \<and> finish rt0 ''uuid-0'' (JStr ''done'') mixedState
       = (Throw (Error ''handler failed''),
          mixedState \<lparr> tasks := [(''uuid-0'',
                          pendingTask \<lparr> status := Completed, completedAt := Some 1001,
                            result := JStr ''done'' \<rparr>)],
                       clockReads := 2, world := [''uuid-0''] \<rparr>)
   \<and> taskError rt0 ''uuid-0'' ''boom'' mixedState
       = (Throw (Error ''handler failed''),
          mixedState \<lparr> tasks := [(''uuid-0'',
                          pendingTask \<lparr> status := Failed, completedAt := Some 1001,
                            error := Some ''boom'' \<rparr>)],
                       clockReads := 2, world := [''uuid-0''] \<rparr>)"
proof -
  note ev = mixedState_eval pendingTask_def completedTask_def rt0_def throwingHandler_def
    loggingHandler_def startedEvent_def testInit_def spreadPatch_def statusPatch_def
    show_nat_digit
  have hs: "eventHandlers mixedState = [loggingHandler] @ throwingHandler # [loggingHandler]"
    by (simp add: mixedState_eval)
  have look: "map_of (tasks mixedState) ''uuid-0'' = Some pendingTask"
    by (simp add: ev)
  have a0: "forEach_handler [loggingHandler] startedEvent (world mixedState)
      = (None, [''uuid-0''])"
    by (simp add: ev)
  have th: "throwingHandler startedEvent [''uuid-0'']
      = (Some (Error ''handler failed''), [''uuid-0''])"
    by (simp add: throwingHandler_def)
  have e1: "emit startedEvent mixedState
       = (Some (Error ''handler failed''), mixedState \<lparr> world := [''uuid-0''] \<rparr>)"
    using emit_stops_at_first_throw [OF a0, where handler = throwingHandler
        and later = "[loggingHandler]" and e = "Error ''handler failed''"
        and ?w2.0 = "[''uuid-0'']", THEN conjunct1] hs th
    by simp
  have a0': "forEach_handler [loggingHandler] startedEvent
      (world (mixedState \<lparr> eventHandlers := [loggingHandler] @ [loggingHandler] \<rparr>))
      = (None, [''uuid-0''])"
    by (simp add: ev)
  have e2: "emit startedEvent
        (mixedState \<lparr> eventHandlers := [loggingHandler] @ [loggingHandler] \<rparr>)
       = (None, mixedState \<lparr> eventHandlers := [loggingHandler] @ [loggingHandler],
                  world := [''uuid-0'', ''uuid-0''] \<rparr>)"
    using emit_stops_at_first_throw [OF a0', where later = "[loggingHandler]",
        THEN conjunct2, THEN conjunct1]
    by (simp add: loggingHandler_def startedEvent_def completedTask_def)
  have ac: "forEach_handler [loggingHandler]
      \<lparr> event_type = Created,
        event_task = \<lparr> task_id = randomUUID rt0 (uuidsDrawn mixedState),
               task_name = init_name testInit, task_description = init_description testInit,
               task_type = init_type testInit, status = Pending,
               parentId = init_parentId testInit, task_metadata = init_metadata testInit,
               result = init_result testInit, error = init_error testInit,
               createdAt = dateNow rt0 (clockReads mixedState),
               startedAt = init_startedAt testInit,
               completedAt = init_completedAt testInit \<rparr>,
        event_error = None \<rparr> (world mixedState) = (None, [''uuid-1''])"
    by (simp add: ev)
  have c: "create rt0 testInit mixedState
       = (Throw (Error ''handler failed''),
          mixedState \<lparr> tasks := [(''uuid-0'', pendingTask),
                          (''uuid-1'', pendingTask \<lparr> task_id := ''uuid-1'', createdAt := 1001 \<rparr>)],
                       uuidsDrawn := 2, clockReads := 2, world := [''uuid-1''] \<rparr>)"
    using emit_stops_at_first_throw [OF ac, where handler = throwingHandler
        and later = "[loggingHandler]" and e = "Error ''handler failed''"
        and ?w2.0 = "[''uuid-1'']" and rt = rt0 and init = testInit
        and newTask = "\<lparr> task_id = randomUUID rt0 (uuidsDrawn mixedState),
               task_name = init_name testInit, task_description = init_description testInit,
               task_type = init_type testInit, status = Pending,
               parentId = init_parentId testInit, task_metadata = init_metadata testInit,
               result = init_result testInit, error = init_error testInit,
               createdAt = dateNow rt0 (clockReads mixedState),
               startedAt = init_startedAt testInit,
               completedAt = init_completedAt testInit \<rparr>",
        THEN conjunct2, THEN conjunct2, THEN conjunct1]
    by (simp add: ev)
  have as: "forEach_handler [loggingHandler]
      \<lparr> event_type = Started,
        event_task = pendingTask \<lparr> status := Running,
          startedAt := Some (dateNow rt0 (clockReads mixedState)) \<rparr>,
        event_error = None \<rparr> (world mixedState) = (None, [''uuid-0''])"
    by (simp add: ev)
  have s: "start rt0 ''uuid-0'' mixedState
       = (Throw (Error ''handler failed''),
          mixedState \<lparr> tasks := [(''uuid-0'',
                          pendingTask \<lparr> status := Running, startedAt := Some 1001 \<rparr>)],
                       clockReads := 2, world := [''uuid-0''] \<rparr>)"
    using emit_stops_at_first_throw [OF as, where handler = throwingHandler
        and later = "[loggingHandler]" and e = "Error ''handler failed''"
        and ?w2.0 = "[''uuid-0'']" and rt = rt0 and taskId = "''uuid-0''"
        and task = pendingTask,
        THEN conjunct2, THEN conjunct2, THEN conjunct2, THEN conjunct1]
    by (simp add: ev)
  have au: "forEach_handler [loggingHandler]
      \<lparr> event_type = Updated,
        event_task = spreadPatch pendingTask (statusPatch \<lparr> patch_status := Some Failed \<rparr>),
        event_error = None \<rparr> (world mixedState) = (None, [''uuid-0''])"
    by (simp add: ev)
  have u: "update ''uuid-0'' (statusPatch \<lparr> patch_status := Some Failed \<rparr>) mixedState
       = (Throw (Error ''handler failed''),
          mixedState \<lparr> tasks := [(''uuid-0'', pendingTask \<lparr> status := Failed \<rparr>)],
                       world := [''uuid-0''] \<rparr>)"
    using emit_stops_at_first_throw [OF au, where handler = throwingHandler
        and later = "[loggingHandler]" and e = "Error ''handler failed''"
        and ?w2.0 = "[''uuid-0'']" and taskId = "''uuid-0''"
        and task = pendingTask and progress = "statusPatch \<lparr> patch_status := Some Failed \<rparr>",
        THEN conjunct2, THEN conjunct2, THEN conjunct2, THEN conjunct2, THEN conjunct1]
    by (simp add: ev)
  have af: "forEach_handler [loggingHandler]
      \<lparr> event_type = Finished,
        event_task = pendingTask \<lparr> status := Completed,
          completedAt := Some (dateNow rt0 (clockReads mixedState)), result := JStr ''done'' \<rparr>,
        event_error = None \<rparr> (world mixedState) = (None, [''uuid-0''])"
    by (simp add: ev)
  have f: "finish rt0 ''uuid-0'' (JStr ''done'') mixedState
       = (Throw (Error ''handler failed''),
          mixedState \<lparr> tasks := [(''uuid-0'',
                          pendingTask \<lparr> status := Completed, completedAt := Some 1001,
                            result := JStr ''done'' \<rparr>)],
                       clockReads := 2, world := [''uuid-0''] \<rparr>)"
    using emit_stops_at_first_throw [OF af, where handler = throwingHandler
        and later = "[loggingHandler]" and e = "Error ''handler failed''"
        and ?w2.0 = "[''uuid-0'']" and rt = rt0 and taskId = "''uuid-0''"
        and task = pendingTask and res = "JStr ''done''",
        THEN conjunct2, THEN conjunct2, THEN conjunct2, THEN conjunct2, THEN conjunct2,
        THEN conjunct1]
    by (simp add: ev)
  have ae: "forEach_handler [loggingHandler]
      \<lparr> event_type = ErrorEvent,
        event_task = pendingTask \<lparr> status := Failed,
          completedAt := Some (dateNow rt0 (clockReads mixedState)), error := Some ''boom'' \<rparr>,
        event_error = Some ''boom'' \<rparr> (world mixedState) = (None, [''uuid-0''])"
    by (simp add: ev)
  have e: "taskError rt0 ''uuid-0'' ''boom'' mixedState
       = (Throw (Error ''handler failed''),
          mixedState \<lparr> tasks := [(''uuid-0'',
                          pendingTask \<lparr> status := Failed, completedAt := Some 1001,
                            error := Some ''boom'' \<rparr>)],
                       clockReads := 2, world := [''uuid-0''] \<rparr>)"
    using emit_stops_at_first_throw [OF ae, where handler = throwingHandler
        and later = "[loggingHandler]" and e = "Error ''handler failed''"
        and ?w2.0 = "[''uuid-0'']" and rt = rt0 and taskId = "''uuid-0''"
        and task = pendingTask and err = "''boom''",
        THEN conjunct2, THEN conjunct2, THEN conjunct2, THEN conjunct2, THEN conjunct2,
        THEN conjunct2]
    by (simp add: ev)
  show ?thesis
    apply (intro conjI)
    apply (rule hs)
    apply (rule a0)
    apply (rule th)
    apply (rule e1)
    apply (rule e2)
    apply (rule look)
    apply (rule c)
    apply (rule s)
    apply (rule u)
    apply (rule f)
    apply (rule e)
    done
qed

section \<open>The mutators when every handler returns\<close>

lemma forEach_handler_return:
  "\<forall>h \<in> set hs. \<forall>event w. fst (h event w) = None \<Longrightarrow> fst (forEach_handler hs event w) = None"
proof (induction hs arbitrary: w)
  case Nil
  show ?case by simp
next
  case (Cons h hs)
  obtain r w1 where h: "h event w = (r, w1)" by (cases "h event w")
  have "fst (h event w) = None" using Cons.prems by simp
  then have "r = None" using h by simp
  then show ?case using Cons h by simp
qed

lemma emit_return: "handlersReturn s \<Longrightarrow> fst (emit event s) = None"
  using forEach_handler_return [of "eventHandlers s" event "world s"]
  by (cases "forEach_handler (eventHandlers s) event (world s)")
     (simp add: emit_def handlersReturn_def)

lemma emit_fields [simp]:
  "tasks (snd (emit event s)) = tasks s"
  "eventHandlers (snd (emit event s)) = eventHandlers s"
  "uuidsDrawn (snd (emit event s)) = uuidsDrawn s"
  "clockReads (snd (emit event s)) = clockReads s"
  by (simp_all add: emit_def split: prod.splits)

lemma emitAndReturn_return:
  "handlersReturn s \<Longrightarrow> fst (emitAndReturn event v s) = Ok v"
  using emit_return [of s event]
  by (cases "emit event s") (simp add: emitAndReturn_def)

lemma emitAndReturn_fields [simp]:
  "uuidsDrawn (snd (emitAndReturn event v s)) = uuidsDrawn s"
  "clockReads (snd (emitAndReturn event v s)) = clockReads s"
  by (simp_all add: emitAndReturn_def emit_def split: prod.splits option.splits)

lemma handlersReturn_cong:
  "eventHandlers s1 = eventHandlers s \<Longrightarrow> handlersReturn s1 = handlersReturn s"
  by (simp add: handlersReturn_def)

text \<open>The task that \<open>create\<close> builds.\<close>

lemma create_return:
  assumes "handlersReturn s"
  shows "fst (create rt init s) =
           Ok \<lparr> task_id = randomUUID rt (uuidsDrawn s), task_name = init_name init,
                task_description = init_description init, task_type = init_type init,
                status = Pending, parentId = init_parentId init,
                task_metadata = init_metadata init, result = init_result init,
                error = init_error init, createdAt = dateNow rt (clockReads s),
                startedAt = init_startedAt init, completedAt = init_completedAt init \<rparr>"
proof -
  have "handlersReturn (s \<lparr> tasks := ts, uuidsDrawn := u, clockReads := c \<rparr>)" for ts u c
    using assms by (simp add: handlersReturn_def)
  then show ?thesis
    by (simp add: create_def Let_def emitAndReturn_return)
qed

lemma create_fields [simp]:
  "tasks (snd (create rt init s)) =
     AList.update (randomUUID rt (uuidsDrawn s))
       \<lparr> task_id = randomUUID rt (uuidsDrawn s), task_name = init_name init,
         task_description = init_description init, task_type = init_type init,
         status = Pending, parentId = init_parentId init,
         task_metadata = init_metadata init, result = init_result init,
         error = init_error init, createdAt = dateNow rt (clockReads s),
         startedAt = init_startedAt init, completedAt = init_completedAt init \<rparr> (tasks s)"
  "eventHandlers (snd (create rt init s)) = eventHandlers s"
  "uuidsDrawn (snd (create rt init s)) = Suc (uuidsDrawn s)"
  "clockReads (snd (create rt init s)) = Suc (clockReads s)"
  by (simp_all add: create_def Let_def)

lemma start_return:
  assumes "handlersReturn s"
  shows "fst (start rt taskId s) =
           Ok (map_option (\<lambda>t. t \<lparr> status := Running,
                  startedAt := Some (dateNow rt (clockReads s)) \<rparr>) (map_of (tasks s) taskId))"
proof -
  have "handlersReturn (s \<lparr> tasks := ts, clockReads := c \<rparr>)" for ts c
    using assms by (simp add: handlersReturn_def)
  then show ?thesis
    by (simp add: start_def Let_def emitAndReturn_return split: option.splits)
qed

lemma finish_return:
  assumes "handlersReturn s"
  shows "fst (finish rt taskId res s) =
           Ok (map_option (\<lambda>t. t \<lparr> status := Completed,
                  completedAt := Some (dateNow rt (clockReads s)), result := res \<rparr>)
                (map_of (tasks s) taskId))"
proof -
  have "handlersReturn (s \<lparr> tasks := ts, clockReads := c \<rparr>)" for ts c
    using assms by (simp add: handlersReturn_def)
  then show ?thesis
    by (simp add: finish_def Let_def emitAndReturn_return split: option.splits)
qed

lemma taskError_return:
  assumes "handlersReturn s"
  shows "fst (taskError rt taskId err s) =
           Ok (map_option (\<lambda>t. t \<lparr> status := Failed,
                  completedAt := Some (dateNow rt (clockReads s)), error := Some err \<rparr>)
                (map_of (tasks s) taskId))"
proof -
  have "handlersReturn (s \<lparr> tasks := ts, clockReads := c \<rparr>)" for ts c
    using assms by (simp add: handlersReturn_def)
  then show ?thesis
    by (simp add: taskError_def Let_def emitAndReturn_return split: option.splits)
qed

lemma mutator_handlers [simp]:
  "eventHandlers (snd (start rt taskId s)) = eventHandlers s"
  "eventHandlers (snd (finish rt taskId res s)) = eventHandlers s"
  "eventHandlers (snd (taskError rt taskId err s)) = eventHandlers s"
  "eventHandlers (snd (update taskId p s)) = eventHandlers s"
  by (simp_all add: start_def finish_def taskError_def update_def Let_def split: option.splits)

lemma mutator_uuidsDrawn [simp]:
  "uuidsDrawn (snd (start rt taskId s)) = uuidsDrawn s"
  "uuidsDrawn (snd (finish rt taskId res s)) = uuidsDrawn s"
  "uuidsDrawn (snd (taskError rt taskId err s)) = uuidsDrawn s"
  by (simp_all add: start_def finish_def taskError_def Let_def split: option.splits)

lemma mutator_tasks:
  "tasks (snd (start rt taskId s)) =
     (case map_of (tasks s) taskId of None \<Rightarrow> tasks s
      | Some t \<Rightarrow> AList.update taskId (t \<lparr> status := Running,
          startedAt := Some (dateNow rt (clockReads s)) \<rparr>) (tasks s))"
  "tasks (snd (finish rt taskId res s)) =
     (case map_of (tasks s) taskId of None \<Rightarrow> tasks s
      | Some t \<Rightarrow> AList.update taskId (t \<lparr> status := Completed,
          completedAt := Some (dateNow rt (clockReads s)), result := res \<rparr>) (tasks s))"
  "tasks (snd (taskError rt taskId err s)) =
     (case map_of (tasks s) taskId of None \<Rightarrow> tasks s
      | Some t \<Rightarrow> AList.update taskId (t \<lparr> status := Failed,
          completedAt := Some (dateNow rt (clockReads s)), error := Some err \<rparr>) (tasks s))"
  by (simp_all add: start_def finish_def taskError_def Let_def split: option.splits)

lemma mutator_keys [simp]:
  "map fst (tasks (snd (start rt taskId s))) = map fst (tasks s)"
  "map fst (tasks (snd (finish rt taskId res s))) = map fst (tasks s)"
  "map fst (tasks (snd (taskError rt taskId err s))) = map fst (tasks s)"
  by (auto simp: mutator_tasks update_keys map_of_eq_None_iff split: option.splits
      dest: map_of_SomeD)
lemma handlersReturn_kept [simp]:
  "handlersReturn (snd (create rt init s)) = handlersReturn s"
  "handlersReturn (snd (start rt taskId s)) = handlersReturn s"
  "handlersReturn (snd (finish rt taskId res s)) = handlersReturn s"
  "handlersReturn (snd (taskError rt taskId err s)) = handlersReturn s"
  by (simp_all add: handlersReturn_def)

lemma update_fresh: "k \<notin> fst ` set al \<Longrightarrow> AList.update k v al = al @ [(k, v)]"
  by (induction al) auto

lemma update_last: "k \<notin> fst ` set al \<Longrightarrow> AList.update k v (al @ [(k, u)]) = al @ [(k, v)]"
  by (induction al) auto

lemma map_of_last: "k \<notin> fst ` set al \<Longrightarrow> map_of (al @ [(k, u)]) k = Some u"
  by (induction al) auto

lemma successResult_readable:
  "res \<noteq> JNull \<Longrightarrow> res \<noteq> JUndefined \<Longrightarrow>
   \<exists>out arts d tk. successResult rt ident res =
      Ok \<lparr> success = True, res_taskId = ident, res_output = out, res_artifacts = arts,
           res_error = None, res_metadata = Some [(''duration'', d), (''tokensUsed'', tk)] \<rparr>"
  by (cases res) (simp_all add: successResult_def)

lemma successResult_shape:
  "successResult rt ident res = Ok r \<Longrightarrow> success r \<and> res_taskId r = ident"
  by (cases res) (auto simp: successResult_def)

lemma execute_begin_return:
  assumes h: "handlersReturn s"
    and fresh: "randomUUID rt (uuidsDrawn s) \<notin> fst ` set (tasks s)"
  shows "\<exists>t0 s2. execute_begin rt task s = (Ok t0, s2)
          \<and> task_id t0 = randomUUID rt (uuidsDrawn s) \<and> status t0 = Pending
          \<and> error t0 = None
          \<and> tasks s2 = tasks s @ [(randomUUID rt (uuidsDrawn s),
                t0 \<lparr> status := Running, startedAt := Some (dateNow rt (Suc (clockReads s))) \<rparr>)]
          \<and> handlersReturn s2 \<and> uuidsDrawn s2 = Suc (uuidsDrawn s)"
proof -
  let ?init = "\<lparr> init_name = ''Spark: '' @ st_name task,
               init_description = Some (prompt task),
               init_type = SubagentTask,
               init_parentId = None,
               init_metadata = Some [(''subagentId'', JStr ''spark-agent''),
                  (''capabilities'', JArr (st_capabilities task))],
               init_result = JUndefined, init_error = None,
               init_startedAt = None, init_completedAt = None \<rparr>"
  let ?id = "randomUUID rt (uuidsDrawn s)"
  obtain r1 s1 where c: "create rt ?init s = (r1, s1)" by (cases "create rt ?init s")
  then have s1: "s1 = snd (create rt ?init s)" and r1': "r1 = fst (create rt ?init s)" by simp_all
  obtain t0 where r1: "r1 = Ok t0" and t0: "task_id t0 = ?id" "status t0 = Pending"
    "error t0 = None"
    using create_return [OF h, of rt ?init] r1' by simp
  have ts1: "tasks s1 = tasks s @ [(?id, t0)]"
    using create_return [OF h, of rt ?init] r1' r1 fresh
    by (simp add: s1 update_fresh)
  have h1: "handlersReturn s1" using h by (simp add: s1)
  have m1: "map_of (tasks s1) ?id = Some t0" unfolding ts1 by (rule map_of_last [OF fresh])
  obtain r2 s2 where st: "start rt ?id s1 = (r2, s2)" by (cases "start rt ?id s1")
  then have s2: "s2 = snd (start rt ?id s1)" and r2': "r2 = fst (start rt ?id s1)" by simp_all
  have r2: "r2 = Ok (Some (t0 \<lparr> status := Running,
      startedAt := Some (dateNow rt (clockReads s1)) \<rparr>))"
    using start_return [OF h1, of rt ?id] m1 r2' by simp
  have cr: "clockReads s1 = Suc (clockReads s)" by (simp add: s1)
  have "tasks s2 = AList.update ?id (t0 \<lparr> status := Running,
      startedAt := Some (dateNow rt (Suc (clockReads s))) \<rparr>) (tasks s1)"
    by (simp add: s2 mutator_tasks m1 cr [symmetric])
  then have ts2: "tasks s2 = tasks s @ [(?id, t0 \<lparr> status := Running,
      startedAt := Some (dateNow rt (Suc (clockReads s))) \<rparr>)]"
    unfolding ts1 by (simp only: update_last [OF fresh])
  have "execute_begin rt task s = (Ok t0, s2)"
    unfolding execute_begin_def c r1 by (simp add: t0 st r2)
  moreover have "handlersReturn s2" using h1 by (simp add: s2)
  moreover have "uuidsDrawn s2 = Suc (uuidsDrawn s)" by (simp add: s2 s1)
  ultimately show ?thesis using t0 ts2 by blast
qed
lemma update_twice: "AList.update k v (AList.update k u al) = AList.update k v al"
  by (induction al) auto

lemma execute_resume_return:
  assumes h: "handlersReturn s2"
    and present: "map_of (tasks s2) (task_id t0) = Some t1"
  shows "\<exists>r t s3. execute_resume rt (task, t0) s2 = (Ok r, s3)
          \<and> tasks s3 = AList.update (task_id t0) t (tasks s2)
          \<and> handlersReturn s3 \<and> uuidsDrawn s3 = uuidsDrawn s2
          \<and> res_taskId r = task_id t0
          \<and> (success r \<longleftrightarrow> status t = Completed)
          \<and> (status t = Completed \<or> status t = Failed)
          \<and> task_id t = task_id t1 \<and> startedAt t = startedAt t1
          \<and> (case awaitResult rt task of
                Throw e \<Rightarrow> status t = Failed
                  \<and> error t = Some (messageOr ''Unknown error'' e)
                  \<and> res_error r = Some (messageOr ''Unknown error'' e)
              | Ok res \<Rightarrow>
                  (case successResult rt (task_id t0) res of
                     Ok r1 \<Rightarrow> r = r1 \<and> status t = Completed \<and> result t = res
                       \<and> error t = error t1
                   | Throw e \<Rightarrow> status t = Failed \<and> result t = res
                       \<and> error t = Some (messageOr ''Unknown error'' e)
                       \<and> res_error r = Some (messageOr ''Unknown error'' e)))"
proof -
  let ?id = "task_id t0"
  have fail: "\<exists>r t s3.
      (case taskError rt ?id (messageOr ''Unknown error'' e) sx of
         (Throw e2, s2) \<Rightarrow> (Throw e2, s2)
       | (Ok failed, s2) \<Rightarrow>
           (Ok \<lparr> success = False, res_taskId = ?id,
                 res_output = JUndefined, res_artifacts = JUndefined,
                 res_error = Some (messageOr ''Unknown error'' e), res_metadata = None \<rparr>, s2))
        = (Ok r, s3)
      \<and> tasks s3 = AList.update ?id t (tasks sx)
      \<and> handlersReturn s3 \<and> uuidsDrawn s3 = uuidsDrawn sx
      \<and> res_taskId r = ?id \<and> \<not> success r \<and> status t = Failed
      \<and> task_id t = task_id tx \<and> startedAt t = startedAt tx \<and> result t = result tx
      \<and> error t = Some (messageOr ''Unknown error'' e)
      \<and> res_error r = Some (messageOr ''Unknown error'' e)"
    if hx: "handlersReturn sx" and px: "map_of (tasks sx) ?id = Some tx" for e sx tx
  proof -
    let ?m = "messageOr ''Unknown error'' e"
    obtain q s3 where te: "taskError rt ?id ?m sx = (q, s3)"
      by (cases "taskError rt ?id ?m sx")
    then have s3: "s3 = snd (taskError rt ?id ?m sx)"
      and q: "q = fst (taskError rt ?id ?m sx)" by simp_all
    have q': "q = Ok (Some (tx \<lparr> status := Failed,
        completedAt := Some (dateNow rt (clockReads sx)), error := Some ?m \<rparr>))"
      using taskError_return [OF hx, of rt ?id ?m] px q by simp
    have ts: "tasks s3 = AList.update ?id (tx \<lparr> status := Failed,
        completedAt := Some (dateNow rt (clockReads sx)), error := Some ?m \<rparr>) (tasks sx)"
      by (simp add: s3 mutator_tasks px)
    have inv: "handlersReturn s3" "uuidsDrawn s3 = uuidsDrawn sx"
      using hx by (simp_all add: s3)
    show ?thesis unfolding te q'
      by (rule exI [of _ "\<lparr> success = False, res_taskId = ?id,
                 res_output = JUndefined, res_artifacts = JUndefined,
                 res_error = Some ?m, res_metadata = None \<rparr>"],
          rule exI [of _ "tx \<lparr> status := Failed,
                 completedAt := Some (dateNow rt (clockReads sx)), error := Some ?m \<rparr>"],
          rule exI [of _ s3])
         (simp add: ts inv)
  qed
  show ?thesis
  proof (cases "awaitResult rt task")
    case (Throw e)
    have "execute_resume rt (task, t0) s2 =
      (case taskError rt ?id (messageOr ''Unknown error'' e) s2 of
         (Throw e2, s2) \<Rightarrow> (Throw e2, s2)
       | (Ok failed, s2) \<Rightarrow>
           (Ok \<lparr> success = False, res_taskId = ?id,
                 res_output = JUndefined, res_artifacts = JUndefined,
                 res_error = Some (messageOr ''Unknown error'' e), res_metadata = None \<rparr>, s2))"
      by (simp add: execute_resume_def execute_try_def Throw Let_def)
    moreover from fail [OF h present, of e] obtain r t s3 where
      "(case taskError rt ?id (messageOr ''Unknown error'' e) s2 of
         (Throw e2, s2) \<Rightarrow> (Throw e2, s2)
       | (Ok failed, s2) \<Rightarrow>
           (Ok \<lparr> success = False, res_taskId = ?id,
                 res_output = JUndefined, res_artifacts = JUndefined,
                 res_error = Some (messageOr ''Unknown error'' e), res_metadata = None \<rparr>, s2))
        = (Ok r, s3)"
      "tasks s3 = AList.update ?id t (tasks s2)"
      "handlersReturn s3" "uuidsDrawn s3 = uuidsDrawn s2"
      "res_taskId r = ?id" "\<not> success r" "status t = Failed"
      "task_id t = task_id t1" "startedAt t = startedAt t1" "result t = result t1"
      "error t = Some (messageOr ''Unknown error'' e)"
      "res_error r = Some (messageOr ''Unknown error'' e)"
      by blast
    ultimately show ?thesis using Throw
      by (intro exI [of _ r] exI [of _ t] exI [of _ s3]) simp
  next
    case (Ok res)
    obtain q sF where fi: "finish rt ?id res s2 = (q, sF)" by (cases "finish rt ?id res s2")
    then have sF: "sF = snd (finish rt ?id res s2)"
      and q: "q = fst (finish rt ?id res s2)" by simp_all
    let ?tF = "t1 \<lparr> status := Completed,
        completedAt := Some (dateNow rt (clockReads s2)), result := res \<rparr>"
    have q': "q = Ok (Some ?tF)"
      using finish_return [OF h, of rt ?id res] present q by simp
    have tsF: "tasks sF = AList.update ?id ?tF (tasks s2)"
      by (simp add: sF mutator_tasks present)
    have hF: "handlersReturn sF" and uF: "uuidsDrawn sF = uuidsDrawn s2"
      using h by (simp_all add: sF)
    have pF: "map_of (tasks sF) ?id = Some ?tF" by (simp add: tsF update_conv')
    show ?thesis
    proof (cases "successResult rt ?id res")
      case r: (Ok r1)
      have "execute_resume rt (task, t0) s2 = (Ok r1, sF)"
        by (simp add: execute_resume_def execute_try_def Ok fi q' r)
      then show ?thesis
        using successResult_shape [OF r] tsF hF uF Ok r
        by (intro exI [of _ r1] exI [of _ ?tF] exI [of _ sF]) simp
    next
      case t: (Throw e)
      have "execute_resume rt (task, t0) s2 =
        (case taskError rt ?id (messageOr ''Unknown error'' e) sF of
           (Throw e2, s2) \<Rightarrow> (Throw e2, s2)
         | (Ok failed, s2) \<Rightarrow>
             (Ok \<lparr> success = False, res_taskId = ?id,
                   res_output = JUndefined, res_artifacts = JUndefined,
                   res_error = Some (messageOr ''Unknown error'' e), res_metadata = None \<rparr>, s2))"
        by (simp add: execute_resume_def execute_try_def Ok fi q' t Let_def)
      moreover from fail [OF hF pF, of e] obtain r tt s3 where
        "(case taskError rt ?id (messageOr ''Unknown error'' e) sF of
           (Throw e2, s2) \<Rightarrow> (Throw e2, s2)
         | (Ok failed, s2) \<Rightarrow>
             (Ok \<lparr> success = False, res_taskId = ?id,
                   res_output = JUndefined, res_artifacts = JUndefined,
                   res_error = Some (messageOr ''Unknown error'' e), res_metadata = None \<rparr>, s2))
          = (Ok r, s3)"
        "tasks s3 = AList.update ?id tt (tasks sF)"
        "handlersReturn s3" "uuidsDrawn s3 = uuidsDrawn sF"
        "res_taskId r = ?id" "\<not> success r" "status tt = Failed"
        "task_id tt = task_id ?tF" "startedAt tt = startedAt ?tF" "result tt = result ?tF"
        "error tt = Some (messageOr ''Unknown error'' e)"
        "res_error r = Some (messageOr ''Unknown error'' e)"
        by blast
      ultimately show ?thesis using Ok t uF
        by (intro exI [of _ r] exI [of _ tt] exI [of _ s3]) (simp add: tsF update_twice)
    qed
  qed
qed

section \<open>Properties of the registry\<close>

text \<open>
  What the loop returns from any starting pair of accumulators: either no agent beats the
  starting score and the starting match is kept, or the result is the first agent of the
  list that reaches the greatest score, and that score exceeds the starting one.
\<close>

lemma findBestMatch_loop_result:
  "((\<forall>a \<in> set as. score req a \<le> sc) \<and> findBestMatch_loop req as best sc = best)
   \<or> (\<exists>i < length as. findBestMatch_loop req as best sc = Some (as ! i)
         \<and> sc < score req (as ! i)
         \<and> (\<forall>j < i. score req (as ! j) < score req (as ! i))
         \<and> (\<forall>b \<in> set as. score req b \<le> score req (as ! i)))"
proof (induction as arbitrary: best sc)
  case Nil
  show ?case by simp
next
  case (Cons x xs)
  show ?case
  proof (cases "score req x > sc")
    case True
    then have step: "findBestMatch_loop req (x # xs) best sc
        = findBestMatch_loop req xs (Some x) (score req x)" by simp
    from Cons.IH [of "score req x" "Some x"] show ?thesis
    proof (elim disjE conjE exE)
      assume le: "\<forall>a \<in> set xs. score req a \<le> score req x"
        and keep: "findBestMatch_loop req xs (Some x) (score req x) = Some x"
      have "findBestMatch_loop req (x # xs) best sc = Some ((x # xs) ! 0)"
        using step keep by simp
      moreover have "\<forall>b \<in> set (x # xs). score req b \<le> score req ((x # xs) ! 0)"
        using le by simp
      moreover have "sc < score req ((x # xs) ! 0)" using True by simp
      ultimately show ?thesis by (intro disjI2 exI [of _ 0]) simp
    next
      fix i
      assume i: "i < length xs"
        and r: "findBestMatch_loop req xs (Some x) (score req x) = Some (xs ! i)"
        and gt: "score req x < score req (xs ! i)"
        and before: "\<forall>j < i. score req (xs ! j) < score req (xs ! i)"
        and all: "\<forall>b \<in> set xs. score req b \<le> score req (xs ! i)"
      have "\<forall>j < Suc i. score req ((x # xs) ! j) < score req (xs ! i)"
      proof (intro allI impI)
        fix j assume "j < Suc i"
        then show "score req ((x # xs) ! j) < score req (xs ! i)"
          using before gt by (cases j) simp_all
      qed
      moreover have "\<forall>b \<in> set (x # xs). score req b \<le> score req (xs ! i)"
        using all gt by simp
      moreover have "sc < score req (xs ! i)" using True gt by simp
      ultimately show ?thesis
        using i r step by (intro disjI2 exI [of _ "Suc i"]) simp
    qed
  next
    case False
    then have step: "findBestMatch_loop req (x # xs) best sc
        = findBestMatch_loop req xs best sc" by simp
    from Cons.IH [of sc best] show ?thesis
    proof (elim disjE conjE exE)
      assume le: "\<forall>a \<in> set xs. score req a \<le> sc"
        and keep: "findBestMatch_loop req xs best sc = best"
      have "\<forall>a \<in> set (x # xs). score req a \<le> sc" using le False by simp
      then show ?thesis using step keep by (intro disjI1) simp
    next
      fix i
      assume i: "i < length xs"
        and r: "findBestMatch_loop req xs best sc = Some (xs ! i)"
        and gt: "sc < score req (xs ! i)"
        and before: "\<forall>j < i. score req (xs ! j) < score req (xs ! i)"
        and all: "\<forall>b \<in> set xs. score req b \<le> score req (xs ! i)"
      have lt: "score req x < score req (xs ! i)" using False gt by simp
      have "\<forall>j < Suc i. score req ((x # xs) ! j) < score req (xs ! i)"
      proof (intro allI impI)
        fix j assume "j < Suc i"
        then show "score req ((x # xs) ! j) < score req (xs ! i)"
          using before lt by (cases j) simp_all
      qed
      moreover have "\<forall>b \<in> set (x # xs). score req b \<le> score req (xs ! i)"
        using all lt by simp
      ultimately show ?thesis
        using i r step gt by (intro disjI2 exI [of _ "Suc i"]) simp
    qed
  qed
qed

lemma register_new_appends:
  "agent_id a \<notin> fst ` set agents \<Longrightarrow> register a agents = agents @ [(agent_id a, a)]"
  unfolding register_def by (induction agents) auto

lemma register_keeps_position:
  "map fst (register a (xs @ (agent_id a, b) # ys)) = map fst (xs @ (agent_id a, b) # ys)"
  unfolding register_def by (induction xs) auto

text \<open>
  The result of \<open>findBestMatch\<close> in terms of the scores of the registered agents, in the
  order of the registry.
\<close>

lemma findBestMatch_scores:
  "(findBestMatch req agents = None
      \<longleftrightarrow> (\<forall>a \<in> set (registry_values agents). score req a = 0))
   \<and> (\<forall>a. findBestMatch req agents = Some a \<longrightarrow>
        (\<exists>i < length (registry_values agents).
            registry_values agents ! i = a
          \<and> 0 < score req a
          \<and> (\<forall>b \<in> set (registry_values agents). score req b \<le> score req a)
          \<and> (\<forall>j < i. score req (registry_values agents ! j) < score req a)))"
proof -
  let ?as = "registry_values agents"
  let ?r = "findBestMatch_loop req ?as None 0"
  have r: "findBestMatch req agents = ?r" by (simp add: findBestMatch_def)
  from findBestMatch_loop_result [of ?as req 0 None]
  show ?thesis
  proof (elim disjE conjE exE)
    assume "\<forall>a \<in> set ?as. score req a \<le> 0" and "?r = None"
    then show ?thesis using r by simp
  next
    fix i
    assume i: "i < length ?as" and res: "?r = Some (?as ! i)"
      and pos: "0 < score req (?as ! i)"
      and before: "\<forall>j < i. score req (?as ! j) < score req (?as ! i)"
      and all: "\<forall>b \<in> set ?as. score req b \<le> score req (?as ! i)"
    have "\<not> (\<forall>a \<in> set ?as. score req a = 0)"
      using i pos by (metis nth_mem less_numeral_extra(3))
    moreover have "\<exists>k < length ?as. ?as ! k = ?as ! i \<and> 0 < score req (?as ! i)
        \<and> (\<forall>b \<in> set ?as. score req b \<le> score req (?as ! i))
        \<and> (\<forall>j < k. score req (?as ! j) < score req (?as ! i))"
      using i pos before all by blast
    ultimately show ?thesis using r res by simp
  qed
qed

lemma filter_empty_iff_none_member:
  "length (filter (\<lambda>cap. cap \<in> set caps) req) = 0 \<longleftrightarrow> (\<forall>cap \<in> set req. cap \<notin> set caps)"
  by (simp add: filter_empty_conv)

lemma register_replaces_in_place:
  "agent_id a \<notin> fst ` set xs
   \<Longrightarrow> register a (xs @ (agent_id a, b) # ys) = xs @ (agent_id a, a) # ys"
  unfolding register_def by (induction xs) auto

text \<open>
  Claim C2. The agents of the registry are held in the order of their first registration:
  \<open>register\<close> puts an agent with a new id after all the others, and one with an id
  already present takes the place of the agent that had it. \<open>findBestMatch\<close> counts, for
  every registered agent, the required capabilities that are among the agent's
  capabilities. It returns nothing exactly when no registered agent has any of the required
  capabilities. Otherwise it returns a registered agent whose count is positive and exceeded
  by no registered agent, and every agent registered before it has a strictly smaller count:
  among the agents with the greatest count it is the one registered first.
\<close>

theorem findBestMatch_greatest_first:
  "(findBestMatch req agents = None
      \<longleftrightarrow> (\<forall>k < length agents. \<forall>cap \<in> set req. cap \<notin> set (capabilities (snd (agents ! k)))))
   \<and> (\<forall>a. findBestMatch req agents = Some a \<longrightarrow>
        (\<exists>i < length agents.
            snd (agents ! i) = a
          \<and> 0 < length (filter (\<lambda>cap. cap \<in> set (capabilities a)) req)
          \<and> (\<forall>k < length agents.
                length (filter (\<lambda>cap. cap \<in> set (capabilities (snd (agents ! k)))) req)
                  \<le> length (filter (\<lambda>cap. cap \<in> set (capabilities a)) req))
          \<and> (\<forall>j < i.
                length (filter (\<lambda>cap. cap \<in> set (capabilities (snd (agents ! j)))) req)
                  < length (filter (\<lambda>cap. cap \<in> set (capabilities a)) req))))
   \<and> (agent_id new \<notin> fst ` set agents
        \<longrightarrow> register new agents = agents @ [(agent_id new, new)])
   \<and> (agent_id new \<notin> fst ` set xs
        \<longrightarrow> register new (xs @ (agent_id new, old) # ys) = xs @ (agent_id new, new) # ys)"
proof (intro conjI)
  let ?n = "\<lambda>a. length (filter (\<lambda>cap. cap \<in> set (capabilities a)) req)"
  have sc: "\<And>a. score req a = ?n a" by (simp add: score_def)
  have len: "length (registry_values agents) = length agents"
    by (simp add: registry_values_def)
  have nth: "\<And>k. k < length agents \<Longrightarrow> registry_values agents ! k = snd (agents ! k)"
    by (simp add: registry_values_def)
  have all: "\<And>P. (\<forall>b \<in> set (registry_values agents). P b)
      \<longleftrightarrow> (\<forall>k < length agents. P (snd (agents ! k)))"
  proof -
    fix P
    have "(\<forall>b \<in> set (registry_values agents). P b)
        \<longleftrightarrow> (\<forall>k < length (registry_values agents). P (registry_values agents ! k))"
      by (simp add: all_set_conv_all_nth)
    then show "(\<forall>b \<in> set (registry_values agents). P b)
        \<longleftrightarrow> (\<forall>k < length agents. P (snd (agents ! k)))"
      using len nth by simp
  qed
  note res = findBestMatch_scores [of req agents]
  have "findBestMatch req agents = None
      \<longleftrightarrow> (\<forall>k < length agents. ?n (snd (agents ! k)) = 0)"
    using res [THEN conjunct1] all [of "\<lambda>b. score req b = 0"] by (simp only: sc)
  then show "findBestMatch req agents = None
      \<longleftrightarrow> (\<forall>k < length agents. \<forall>cap \<in> set req. cap \<notin> set (capabilities (snd (agents ! k))))"
    by (simp only: filter_empty_iff_none_member)
  show "\<forall>a. findBestMatch req agents = Some a \<longrightarrow>
        (\<exists>i < length agents.
            snd (agents ! i) = a
          \<and> 0 < ?n a
          \<and> (\<forall>k < length agents. ?n (snd (agents ! k)) \<le> ?n a)
          \<and> (\<forall>j < i. ?n (snd (agents ! j)) < ?n a))"
  proof (intro allI impI)
    fix a
    assume "findBestMatch req agents = Some a"
    with res [THEN conjunct2] obtain i where i: "i < length (registry_values agents)"
      and a: "registry_values agents ! i = a"
      and pos: "0 < score req a"
      and le: "\<forall>b \<in> set (registry_values agents). score req b \<le> score req a"
      and before: "\<forall>j < i. score req (registry_values agents ! j) < score req a"
      by blast
    have i': "i < length agents" using i len by simp
    have "snd (agents ! i) = a" using a nth [OF i'] by simp
    moreover have "0 < ?n a" using pos by (simp only: sc)
    moreover have "\<forall>k < length agents. ?n (snd (agents ! k)) \<le> ?n a"
      using le all [of "\<lambda>b. score req b \<le> score req a"] by (simp only: sc)
    moreover have "\<forall>j < i. ?n (snd (agents ! j)) < ?n a"
    proof (intro allI impI)
      fix j assume j: "j < i"
      then have "j < length agents" using i' by simp
      then have "registry_values agents ! j = snd (agents ! j)" by (rule nth)
      then show "?n (snd (agents ! j)) < ?n a" using before j sc by metis
    qed
    ultimately show "\<exists>i < length agents.
            snd (agents ! i) = a
          \<and> 0 < ?n a
          \<and> (\<forall>k < length agents. ?n (snd (agents ! k)) \<le> ?n a)
          \<and> (\<forall>j < i. ?n (snd (agents ! j)) < ?n a)"
      using i' by blast
  qed
  show "agent_id new \<notin> fst ` set agents
        \<longrightarrow> register new agents = agents @ [(agent_id new, new)]"
    using register_new_appends by blast
  show "agent_id new \<notin> fst ` set xs
        \<longrightarrow> register new (xs @ (agent_id new, old) # ys) = xs @ (agent_id new, new) # ys"
    using register_replaces_in_place by blast
qed

theorem findBestMatch_greatest_first_witness:
  "tieRegistry = [(''test-agent'', mockAgent), (''full-agent'', fullAgent), (''twin-agent'', twinAgent)]
   \<and> register twinAgent [(''test-agent'', mockAgent), (''full-agent'', fullAgent)] = tieRegistry
   \<and> register fullAgent
        [(''test-agent'', mockAgent), (''full-agent'', mockAgent), (''twin-agent'', twinAgent)]
       = tieRegistry
   \<and> findBestMatch [''code'', ''testing'', ''aesthetics''] tieRegistry = Some fullAgent
   \<and> (\<exists>i < length tieRegistry.
          snd (tieRegistry ! i) = fullAgent
        \<and> 0 < length (filter (\<lambda>cap. cap \<in> set (capabilities fullAgent))
                  [''code'', ''testing'', ''aesthetics''])
        \<and> (\<forall>k < length tieRegistry.
              length (filter (\<lambda>cap. cap \<in> set (capabilities (snd (tieRegistry ! k))))
                  [''code'', ''testing'', ''aesthetics''])
                \<le> length (filter (\<lambda>cap. cap \<in> set (capabilities fullAgent))
                  [''code'', ''testing'', ''aesthetics'']))
        \<and> (\<forall>j < i.
              length (filter (\<lambda>cap. cap \<in> set (capabilities (snd (tieRegistry ! j))))
                  [''code'', ''testing'', ''aesthetics''])
                < length (filter (\<lambda>cap. cap \<in> set (capabilities fullAgent))
                  [''code'', ''testing'', ''aesthetics''])))
   \<and> findBestMatch [''testing'', ''code''] tieRegistry = Some mockAgent
   \<and> findBestMatch [''aesthetics'', ''research''] tieRegistry = Some fullAgent
   \<and> findBestMatch [''research'', ''planning''] tieRegistry = None
   \<and> findBestMatch [''code''] ([] :: string SubagentRegistry) = None"
proof -
  have reg: "tieRegistry
      = [(''test-agent'', mockAgent), (''full-agent'', fullAgent), (''twin-agent'', twinAgent)]"
    by (simp add: tieRegistry_def testRegistry_def register_def mockAgent_def fullAgent_def
        twinAgent_def)
  have ids: "agent_id mockAgent = ''test-agent''" "agent_id fullAgent = ''full-agent''"
    "agent_id twinAgent = ''twin-agent''"
    by (simp_all add: mockAgent_def fullAgent_def twinAgent_def)
  have caps: "capabilities mockAgent = [''code'', ''testing'']"
    "capabilities fullAgent = [''code'', ''testing'', ''aesthetics'']"
    "capabilities twinAgent = [''code'', ''testing'', ''aesthetics'']"
    by (simp_all add: mockAgent_def fullAgent_def twinAgent_def)
  have app: "register twinAgent [(''test-agent'', mockAgent), (''full-agent'', fullAgent)]
      = tieRegistry"
    using findBestMatch_greatest_first
      [where new = twinAgent and agents = "[(''test-agent'', mockAgent), (''full-agent'', fullAgent)]",
        THEN conjunct2, THEN conjunct2, THEN conjunct1]
    by (simp add: reg ids)
  have repl: "register fullAgent
        [(''test-agent'', mockAgent), (''full-agent'', mockAgent), (''twin-agent'', twinAgent)]
       = tieRegistry"
    using findBestMatch_greatest_first
      [where new = fullAgent and xs = "[(''test-agent'', mockAgent)]" and old = mockAgent
        and ys = "[(''twin-agent'', twinAgent)]",
        THEN conjunct2, THEN conjunct2, THEN conjunct2]
    by (simp add: reg ids)
  have e3: "findBestMatch [''code'', ''testing'', ''aesthetics''] tieRegistry = Some fullAgent"
    by (simp add: reg findBestMatch_def registry_values_def score_def caps)
  have e2: "findBestMatch [''testing'', ''code''] tieRegistry = Some mockAgent"
    by (simp add: reg findBestMatch_def registry_values_def score_def caps)
  have e1: "findBestMatch [''aesthetics'', ''research''] tieRegistry = Some fullAgent"
    by (simp add: reg findBestMatch_def registry_values_def score_def caps)
  have nth3: "\<And>P. (\<forall>k < length tieRegistry. P k) \<longleftrightarrow> P 0 \<and> P 1 \<and> P 2"
    by (simp add: reg All_less_Suc numeral_2_eq_2 conj_ac)
  have "\<forall>k < length tieRegistry. \<forall>cap \<in> set [''research'', ''planning''].
      cap \<notin> set (capabilities (snd (tieRegistry ! k)))"
    unfolding nth3 by (simp add: reg caps)
  then have e0: "findBestMatch [''research'', ''planning''] tieRegistry = None"
    using findBestMatch_greatest_first
      [where req = "[''research'', ''planning'']" and agents = tieRegistry, THEN conjunct1]
    by (rule_tac iffD2)
  have en: "findBestMatch [''code''] ([] :: string SubagentRegistry) = None"
    using findBestMatch_greatest_first
      [where req = "[''code'']" and agents = "[] :: string SubagentRegistry", THEN conjunct1]
    by simp
  note findBestMatch_greatest_first
      [where req = "[''code'', ''testing'', ''aesthetics'']" and agents = tieRegistry,
        THEN conjunct2, THEN conjunct1, THEN spec, THEN mp, OF e3]
  then
  have ex: "\<exists>i < length tieRegistry.
          snd (tieRegistry ! i) = fullAgent
        \<and> 0 < length (filter (\<lambda>cap. cap \<in> set (capabilities fullAgent))
                  [''code'', ''testing'', ''aesthetics''])
        \<and> (\<forall>k < length tieRegistry.
              length (filter (\<lambda>cap. cap \<in> set (capabilities (snd (tieRegistry ! k))))
                  [''code'', ''testing'', ''aesthetics''])
                \<le> length (filter (\<lambda>cap. cap \<in> set (capabilities fullAgent))
                  [''code'', ''testing'', ''aesthetics'']))
        \<and> (\<forall>j < i.
              length (filter (\<lambda>cap. cap \<in> set (capabilities (snd (tieRegistry ! j))))
                  [''code'', ''testing'', ''aesthetics''])
                < length (filter (\<lambda>cap. cap \<in> set (capabilities fullAgent))
                  [''code'', ''testing'', ''aesthetics'']))" .
  show ?thesis
    apply (intro conjI)
    apply (rule reg)
    apply (rule app)
    apply (rule repl)
    apply (rule e3)
    apply (rule ex)
    apply (rule e2)
    apply (rule e1)
    apply (rule e0)
    apply (rule en)
    done
qed

section \<open>Properties of promises\<close>

lemma firstRejected_None: "(firstRejected ps = None) = (\<forall>e. Rejected e \<notin> set ps)"
proof (induction ps)
  case Nil
  show ?case by simp
next
  case (Cons p ps)
  then show ?case by (cases p) auto
qed

lemma firstRejected_Some: "firstRejected ps = Some e \<Longrightarrow> Rejected e \<in> set ps"
proof (induction ps)
  case Nil
  then show ?case by simp
next
  case (Cons p ps)
  then show ?case by (cases p) auto
qed

lemma isWaiting_iff: "isWaiting q = (\<exists>p. q = Waiting p)"
  by (cases q) simp_all

lemma waitingIndices_Nil: "(waitingIndices ps = []) = (\<forall>p. Waiting p \<notin> set ps)"
proof -
  have "(waitingIndices ps = []) = (\<forall>i < length ps. \<not> isWaiting (ps ! i))"
    by (auto simp: waitingIndices_def filter_empty_conv)
  also have "\<dots> = (\<forall>q \<in> set ps. \<not> isWaiting q)"
    by (metis in_set_conv_nth)
  also have "\<dots> = (\<forall>p. Waiting p \<notin> set ps)"
    unfolding isWaiting_iff by blast
  finally show ?thesis .
qed

lemma picked_waiting:
  assumes "waitingIndices ps = w # ws" and "i = (w # ws) ! (n mod length (w # ws))"
  shows "i < length ps \<and> isWaiting (ps ! i)"
proof -
  have "n mod length (w # ws) < length (w # ws)" by simp
  then have "i \<in> set (w # ws)" unfolding assms(2) by (rule nth_mem)
  then have "i \<in> set (waitingIndices ps)" using assms(1) by simp
  then show ?thesis by (simp add: waitingIndices_def)
qed

text \<open>
  A property of the state that every continuation of a waiting promise keeps is kept by
  \<open>Promise.all\<close>, whatever the order in which the promises are settled.
\<close>

lemma promiseAll_invariant:
  fixes ps :: "('v, 'q) promise list"
  assumes "\<And>p s. Waiting p \<in> set ps \<Longrightarrow> P s \<Longrightarrow> P (snd (resume p s))" and "P s"
  shows "P (snd (promiseAll resume pick ps s))"
  using assms
proof (induction resume pick ps s rule: promiseAll.induct)
  case (1 resume pick ps s)
  show ?case
  proof (cases "firstRejected ps")
    case (Some e)
    then show ?thesis using "1.prems"(2) by (subst promiseAll.simps) simp
  next
    case None
    show ?thesis
    proof (cases "waitingIndices ps")
      case Nil
      then show ?thesis using None "1.prems"(2) by (subst promiseAll.simps) simp
    next
      case (Cons w ws)
      define i where "i = (w # ws) ! (pick s mod length (w # ws))"
      have iw: "i < length ps" "isWaiting (ps ! i)"
        using picked_waiting [OF Cons i_def] by simp_all
      then obtain p where p: "ps ! i = Waiting p" by (cases "ps ! i") auto
      obtain r s1 where r: "resume p s = (r, s1)" by (cases "resume p s")
      have mem: "Waiting p \<in> set ps" using iw(1) p by (metis nth_mem)
      have P1: "P s1" using "1.prems"(1) [OF mem "1.prems"(2)] r by simp
      have sub: "Waiting q \<in> set (ps[i := settled r]) \<Longrightarrow> Waiting q \<in> set ps" for q
      proof -
        assume a: "Waiting q \<in> set (ps[i := settled r])"
        have "Waiting q \<noteq> (settled r :: ('v, 'q) promise)" by (cases r) simp_all
        then show ?thesis using a set_update_subset_insert [of ps i "settled r"] by auto
      qed
      have "P (snd (promiseAll resume pick (ps[i := settled r]) s1))"
        using "1.IH" [OF None Cons i_def p r [symmetric]] "1.prems"(1) sub P1 by blast
      moreover have "promiseAll resume pick ps s
          = promiseAll resume pick (ps[i := settled r]) s1"
        by (subst promiseAll.simps)
           (simp only: None Cons option.case list.case Let_def i_def [symmetric] p
              promise.case r prod.case)
      ultimately show ?thesis by simp
    qed
  qed
qed
lemma resolveWith_update:
  "i < length ps \<Longrightarrow> ps ! i = Waiting p \<Longrightarrow>
   resolveWith f (ps[i := Fulfilled (f p)]) = resolveWith f ps"
  by (simp add: resolveWith_def list_eq_iff_nth_eq nth_list_update)

lemma resolveWith_settled:
  "\<forall>p. Waiting p \<notin> set ps \<Longrightarrow> resolveWith f ps = ps"
proof -
  assume a: "\<forall>p. Waiting p \<notin> set ps"
  have "(case q of Waiting p \<Rightarrow> Fulfilled (f p) | other \<Rightarrow> other) = q" if "q \<in> set ps" for q
    using a that by (cases q) auto
  then show ?thesis by (simp add: resolveWith_def map_idI)
qed

text \<open>
  The outcome of \<open>Promise.all\<close> when the continuation of each waiting promise \<open>p\<close> either
  throws \<open>err p\<close> (when \<open>bad p\<close>) or returns \<open>f p\<close>, in every state that satisfies the
  invariant \<open>P\<close>: it rejects, with an error of one of its promises, exactly when some promise
  is rejected or bad, and otherwise fulfils with the values in the order of the promises.
  The order of settlement \<open>pick\<close> is arbitrary.
\<close>

lemma promiseAll_outcome:
  fixes ps :: "('v, 'q) promise list"
  assumes "\<And>p s. Waiting p \<in> set ps \<Longrightarrow> P s \<Longrightarrow> P (snd (resume p s))"
    and "\<And>p s. Waiting p \<in> set ps \<Longrightarrow> P s \<Longrightarrow>
           fst (resume p s) = (if bad p then Throw (err p) else Ok (f p))"
    and "P s"
    and "\<And>e. Rejected e \<in> set ps \<Longrightarrow> e \<in> E"
    and "\<And>p. Waiting p \<in> set ps \<Longrightarrow> bad p \<Longrightarrow> err p \<in> E"
  shows "if (\<exists>e. Rejected e \<in> set ps) \<or> (\<exists>p. Waiting p \<in> set ps \<and> bad p)
         then (\<exists>e \<in> E. fst (promiseAll resume pick ps s) = Throw e)
         else fst (promiseAll resume pick ps s) = Ok (fulfilledValues (resolveWith f ps))"
  using assms
proof (induction resume pick ps s rule: promiseAll.induct)
  case (1 resume pick ps s)
  show ?case
  proof (cases "firstRejected ps")
    case (Some e)
    then have "Rejected e \<in> set ps" by (rule firstRejected_Some)
    moreover have "promiseAll resume pick ps s = (Throw e, s)"
      using Some by (subst promiseAll.simps) simp
    ultimately show ?thesis using "1.prems"(4) by auto
  next
    case None
    then have norej: "\<forall>e. Rejected e \<notin> set ps" by (simp add: firstRejected_None)
    show ?thesis
    proof (cases "waitingIndices ps")
      case Nil
      then have nw: "\<forall>p. Waiting p \<notin> set ps" by (simp add: waitingIndices_Nil)
      have "promiseAll resume pick ps s = (Ok (fulfilledValues ps), s)"
        using None Nil by (subst promiseAll.simps) simp
      then show ?thesis using norej nw by (simp add: resolveWith_settled)
    next
      case (Cons w ws)
      define i where "i = (w # ws) ! (pick s mod length (w # ws))"
      have iw: "i < length ps" "isWaiting (ps ! i)"
        using picked_waiting [OF Cons i_def] by simp_all
      then obtain p where p: "ps ! i = Waiting p" by (cases "ps ! i") auto
      obtain r s1 where r: "resume p s = (r, s1)" by (cases "resume p s")
      have mem: "Waiting p \<in> set ps" using iw(1) p by (metis nth_mem)
      have P1: "P s1" using "1.prems"(1) [OF mem "1.prems"(3)] r by simp
      have rv: "r = (if bad p then Throw (err p) else Ok (f p))"
        using "1.prems"(2) [OF mem "1.prems"(3)] r by simp
      let ?ps = "ps[i := settled r]"
      have step: "promiseAll resume pick ps s = promiseAll resume pick ?ps s1"
        by (subst promiseAll.simps)
           (simp only: None Cons option.case list.case Let_def i_def [symmetric] p
              promise.case r prod.case)
      have sub: "Waiting q \<in> set ?ps \<Longrightarrow> Waiting q \<in> set ps" for q
      proof -
        assume a: "Waiting q \<in> set ?ps"
        have "Waiting q \<noteq> (settled r :: ('v, 'q) promise)" by (cases r) simp_all
        then show ?thesis using a set_update_subset_insert [of ps i "settled r"] by auto
      qed
      have rejE: "e \<in> E" if "Rejected e \<in> set ?ps" for e
      proof -
        have "Rejected e \<in> insert (settled r :: ('v, 'q) promise) (set ps)"
          using set_update_subset_insert [of ps i "settled r"] that by (rule subsetD)
        then have "Rejected e = (settled r :: ('v, 'q) promise) \<or> Rejected e \<in> set ps"
          by (simp only: insert_iff)
        then show ?thesis
        proof
          assume "Rejected e = (settled r :: ('v, 'q) promise)"
          then have "bad p \<and> e = err p" using rv by (cases "bad p") simp_all
          then show ?thesis using "1.prems"(5) [OF mem] by simp
        next
          assume "Rejected e \<in> set ps"
          then show ?thesis using "1.prems"(4) by simp
        qed
      qed
      have IH: "if (\<exists>e. Rejected e \<in> set ?ps) \<or> (\<exists>p. Waiting p \<in> set ?ps \<and> bad p)
         then (\<exists>e \<in> E. fst (promiseAll resume pick ?ps s1) = Throw e)
         else fst (promiseAll resume pick ?ps s1) = Ok (fulfilledValues (resolveWith f ?ps))"
        using "1.IH" [OF None Cons i_def p r [symmetric]] "1.prems"(1,2,5) sub P1 rejE
        by blast
      show ?thesis
      proof (cases "bad p")
        case True
        then have "Rejected (err p) \<in> set ?ps"
          using rv iw(1) by (simp add: set_update_memI)
        then have "\<exists>e \<in> E. fst (promiseAll resume pick ?ps s1) = Throw e"
          using IH by (auto split: if_splits)
        then show ?thesis using step True mem by auto
      next
        case False
        then have rf: "settled r = (Fulfilled (f p) :: ('v, 'q) promise)" using rv by simp
        have same: "(\<exists>q. Waiting q \<in> set ?ps \<and> bad q) = (\<exists>q. Waiting q \<in> set ps \<and> bad q)"
        proof
          assume "\<exists>q. Waiting q \<in> set ?ps \<and> bad q"
          then show "\<exists>q. Waiting q \<in> set ps \<and> bad q" using sub by blast
        next
          assume "\<exists>q. Waiting q \<in> set ps \<and> bad q"
          then obtain q where q: "Waiting q \<in> set ps" "bad q" by blast
          then obtain j where j: "j < length ps" "ps ! j = Waiting q"
            by (metis in_set_conv_nth)
          have "j \<noteq> i" using j(2) p q(2) False by auto
          then have "?ps ! j = Waiting q" using j by simp
          then have "Waiting q \<in> set ?ps" using j(1) by (metis length_list_update nth_mem)
          then show "\<exists>q. Waiting q \<in> set ?ps \<and> bad q" using q(2) by blast
        qed
        have norej2: "\<forall>e. Rejected e \<notin> set ?ps"
        proof (intro allI notI)
          fix e assume "Rejected e \<in> set ?ps"
          then have "Rejected e \<in> insert (settled r :: ('v, 'q) promise) (set ps)"
            using set_update_subset_insert [of ps i "settled r"] by (simp only: subsetD)
          then have "Rejected e = (settled r :: ('v, 'q) promise) \<or> Rejected e \<in> set ps"
            by (simp only: insert_iff)
          then show False using rf norej by auto
        qed
        have rw: "resolveWith f ?ps = resolveWith f ps"
          unfolding rf by (rule resolveWith_update [OF iw(1) p])
        show ?thesis using IH same norej norej2 step rw by simp
      qed
    qed
  qed
qed

section \<open>Properties of capability inference\<close>











section \<open>Properties of sequential delegation\<close>

lemma digit_inj: "a < 10 \<Longrightarrow> b < 10 \<Longrightarrow> digit a = digit b \<Longrightarrow> a = b"
proof -
  have d: "distinct ''0123456789''" by simp
  show "a < 10 \<Longrightarrow> b < 10 \<Longrightarrow> digit a = digit b \<Longrightarrow> a = b"
    unfolding digit_def using nth_eq_iff_index_eq [OF d, of a b] by simp
qed

lemma show_nat_nonempty: "show_nat n \<noteq> []"
  by (subst show_nat.simps) simp

lemma show_nat_inj: "show_nat n = show_nat m \<Longrightarrow> n = m"
proof (induction n arbitrary: m rule: show_nat.induct)
  case (1 n)
  show ?case
  proof (cases "n < 10")
    case nlt: True
    show ?thesis
    proof (cases "m < 10")
      case True
      then have "[digit n] = [digit m]"
        using "1.prems" nlt by (simp add: show_nat.simps [of n] show_nat.simps [of m])
      then show ?thesis using digit_inj nlt True by simp
    next
      case False
      then have "show_nat m = show_nat (m div 10) @ [digit (m mod 10)]"
        by (simp add: show_nat.simps [of m])
      moreover have "show_nat n = [digit n]" using nlt by (simp add: show_nat.simps [of n])
      ultimately have "show_nat (m div 10) = []" using "1.prems" by simp
      then show ?thesis using show_nat_nonempty by simp
    qed
  next
    case nge: False
    then have n: "show_nat n = show_nat (n div 10) @ [digit (n mod 10)]"
      by (simp add: show_nat.simps [of n])
    show ?thesis
    proof (cases "m < 10")
      case True
      then have "show_nat m = [digit m]" by (simp add: show_nat.simps [of m])
      then have "show_nat (n div 10) = []" using n "1.prems" by simp
      then show ?thesis using show_nat_nonempty by simp
    next
      case False
      then have m: "show_nat m = show_nat (m div 10) @ [digit (m mod 10)]"
        by (simp add: show_nat.simps [of m])
      from n m "1.prems" have eq: "show_nat (n div 10) = show_nat (m div 10)"
        and dg: "digit (n mod 10) = digit (m mod 10)" by simp_all
      from "1.IH" [OF nge eq] have "n div 10 = m div 10" .
      moreover have "n mod 10 = m mod 10" using digit_inj [OF _ _ dg] by simp
      ultimately show ?thesis by (metis div_mult_mod_eq)
    qed
  qed
qed

lemma resultKey_inj [simp]: "(resultKey i = resultKey j) = (i = j)"
  by (auto simp: resultKey_def dest: show_nat_inj)
lemma spread_single: "spread acc [(k, v)] = AList.update k v acc"
  by (simp add: spread_def)

lemma accumulatedAfter_snoc:
  "accumulatedAfter (rs @ [r]) =
     (if success r \<and> truthy (res_output r)
      then spread (accumulatedAfter rs) [(resultKey (length rs), res_output r)]
      else accumulatedAfter rs)"
proof -
  let ?f = "\<lambda>xs i acc. if success (xs ! i) \<and> truthy (res_output (xs ! i))
                    then spread acc [(resultKey i, res_output (xs ! i))] else acc"
  have "fold (?f (rs @ [r])) [0..<length rs] [] = fold (?f rs) [0..<length rs] []"
    by (rule fold_cong) (auto simp: nth_append)
  then show ?thesis by (simp add: accumulatedAfter_def)
qed

lemma update_keys_subset:
  "fst ` set (AList.update k v acc) \<subseteq> insert k (fst ` set acc)"
proof -
  have "set (map fst (AList.update k v acc)) \<subseteq> insert k (set (map fst acc))"
    by (simp add: update_keys) auto
  then show ?thesis by simp
qed

lemma accumulatedAfter_dom:
  "fst ` set (accumulatedAfter rs) \<subseteq> resultKey ` {i. i < length rs}"
proof (induction rs rule: rev_induct)
  case Nil
  show ?case by (simp add: accumulatedAfter_def)
next
  case (snoc r rs)
  have mono: "resultKey ` {i. i < length rs} \<subseteq> resultKey ` {i. i < length (rs @ [r])}"
    by auto
  have new: "resultKey (length rs) \<in> resultKey ` {i. i < length (rs @ [r])}"
    by simp
  show ?case
  proof (cases "success r \<and> truthy (res_output r)")
    case True
    then have "fst ` set (accumulatedAfter (rs @ [r]))
        \<subseteq> insert (resultKey (length rs)) (fst ` set (accumulatedAfter rs))"
      using update_keys_subset by (simp add: accumulatedAfter_snoc spread_single)
    also have "\<dots> \<subseteq> resultKey ` {i. i < length (rs @ [r])}"
      using snoc.IH mono new by blast
    finally show ?thesis .
  next
    case False
    then have "accumulatedAfter (rs @ [r]) = accumulatedAfter rs"
      by (auto simp: accumulatedAfter_snoc)
    then show ?thesis using snoc.IH mono by auto
  qed
qed

lemma accumulatedAfter_keys:
  "map_of (accumulatedAfter rs) (resultKey i) =
     (if i < length rs \<and> success (rs ! i) \<and> truthy (res_output (rs ! i))
      then Some (res_output (rs ! i)) else None)"
proof (induction rs rule: rev_induct)
  case Nil
  show ?case by (simp add: accumulatedAfter_def)
next
  case (snoc r rs)
  show ?case
  proof (cases "i < length rs")
    case True
    then show ?thesis using snoc.IH
      by (simp add: accumulatedAfter_snoc spread_single update_conv' nth_append)
  next
    case False
    then have none: "map_of (accumulatedAfter rs) (resultKey i) = None"
      using snoc.IH by simp
    show ?thesis
    proof (cases "i = length rs")
      case True
      then show ?thesis using none
        by (simp add: accumulatedAfter_snoc spread_single update_conv')
    next
      case ne: False
      then have "\<not> i < length (rs @ [r])" using False by simp
      then show ?thesis using none ne
        by (simp add: accumulatedAfter_snoc spread_single update_conv')
    qed
  qed
qed

lemma loop_step:
  "delegateSequential_loop rt agents cp (x # zs) results (accumulatedAfter results) s =
     (case delegate rt agents
             (if cp then x \<lparr> st_context := Some (spread
                    (case st_context x of None \<Rightarrow> [] | Some c \<Rightarrow> c)
                    (accumulatedAfter results)) \<rparr> else x) s of
        (Throw e, s1) \<Rightarrow> (Throw e, s1)
      | (Ok r, s1) \<Rightarrow>
          delegateSequential_loop rt agents cp zs (results @ [r])
            (accumulatedAfter (results @ [r])) s1)"
  by (simp add: Let_def accumulatedAfter_snoc split: prod.splits res.splits
      split del: if_split cong: if_cong)

lemma loop_append:
  "delegateSequential_loop rt agents cp (xs @ ys) results (accumulatedAfter results) s =
     (case delegateSequential_loop rt agents cp xs results (accumulatedAfter results) s of
        (Throw e, s1) \<Rightarrow> (Throw e, s1)
      | (Ok rs, s1) \<Rightarrow> delegateSequential_loop rt agents cp ys rs (accumulatedAfter rs) s1)"
proof (induction xs arbitrary: results s)
  case Nil
  show ?case by simp
next
  case (Cons x xs)
  show ?case
    unfolding append_Cons loop_step
    by (simp add: Cons.IH split: prod.splits res.splits split del: if_split)
qed

lemma loop_length:
  "delegateSequential_loop rt agents cp xs results acc s = (Ok rs, s1) \<Longrightarrow>
   length rs = length results + length xs"
proof (induction xs arbitrary: results acc s)
  case Nil
  then show ?case by simp
next
  case (Cons x xs)
  then show ?case
    by (auto simp: Let_def split: prod.splits res.splits)
qed
lemma findBestMatch_spark:
  "findBestMatch [] sparkRegistry = None"
  "findBestMatch [JStr ''code''] sparkRegistry = Some sparkAgentConfig"
  by (simp_all add: findBestMatch_def registry_values_def sparkRegistry_def register_def
      score_def sparkAgentConfig_def)

lemma delegate_workNoMatch:
  "delegate rtEcho sparkRegistry (workNoMatch \<lparr> st_context := c \<rparr>) s = (Ok (seqResults ! 0), s)"
  by (simp add: delegate_def delegate_begin_def findBestMatch_spark workNoMatch_def
      noSubagentFound_def seqResults_def joinValues_def)

lemma seq_two:
  "delegateSequential rtEcho sparkRegistry [workNoMatch, workCode] True (emptyState ())
     = (Ok seqResults, seqState)"
  by (simp add: delegateSequential_def Let_def spread_def delegate_workNoMatch [simplified]
      delegate_def delegate_begin_def findBestMatch_spark workCode_def workNoMatch_def
      execute_begin_def execute_resume_def execute_try_def awaitResult_def
      successResult_def sparkRequest_def
      sparkAgentConfig_def rtEcho_def rt0_def echoFetch_def create_def start_def finish_def
      emitAndReturn_def emit_def emptyState_def show_nat_digit seqResults_def seqState_def
      noSubagentFound_def joinValues_def)
text \<open>
  Claim C4 fails as stated: the key of an output is built from \<open>results.length - 1\<close>, its
  position among all attempts. Of three items the first fails and the second succeeds
  with output \<open>{}\<close>; the third is called with that output under \<open>result_1\<close>, not
  \<open>result_0\<close>, as the backend that returns the context it is sent shows.
\<close>

theorem sequential_key_is_attempt_index_counterexample:
  "(case fst (delegateSequential rtEcho sparkRegistry [workNoMatch, workCode, workCode] True
              (emptyState ())) of
      Ok rs \<Rightarrow> map (\<lambda>r. (success r, res_output r)) rs
    | Throw e \<Rightarrow> [])
   = [(False, JUndefined), (True, JObj []), (True, JObj [(''result_1'', JObj [])])]"
  by (simp add: delegateSequential_def Let_def spread_def delegate_workNoMatch [simplified]
      delegate_def delegate_begin_def findBestMatch_spark workCode_def workNoMatch_def
      execute_begin_def execute_resume_def execute_try_def awaitResult_def
      successResult_def sparkRequest_def
      sparkAgentConfig_def rtEcho_def rt0_def echoFetch_def create_def start_def finish_def
      emitAndReturn_def emit_def emptyState_def show_nat_digit resultKey_def
      noSubagentFound_def joinValues_def)

text \<open>
  Claim C4 as amended. With context propagation enabled, when the items before a work
  item have produced the results \<open>rs\<close> (one per item, failed or not), the item is delegated
  with the accumulated context spread over its own context, the accumulated entries
  winning. The accumulated context holds, for each position \<open>i\<close> of \<open>rs\<close>, the key
  \<open>result_i\<close> with the output of \<open>rs ! i\<close> when that attempt succeeded with a truthy
  output, and no other key: a failed attempt, or a success whose output is falsy, takes
  its position and contributes no key.
\<close>

theorem delegateSequential_context_by_attempt_index:
  assumes "delegateSequential rt agents before True s = (Ok rs, s1)"
  shows "delegateSequential rt agents (before @ [task]) True s =
           (case delegate rt agents
                   (task \<lparr> st_context := Some (spread
                       (case st_context task of None \<Rightarrow> [] | Some c \<Rightarrow> c)
                       (accumulatedAfter rs)) \<rparr>) s1 of
              (Throw e, s2) \<Rightarrow> (Throw e, s2)
            | (Ok r, s2) \<Rightarrow> (Ok (rs @ [r]), s2))
       \<and> length rs = length before
       \<and> (\<forall>i. map_of (accumulatedAfter rs) (resultKey i) =
              (if i < length rs \<and> success (rs ! i) \<and> truthy (res_output (rs ! i))
               then Some (res_output (rs ! i)) else None))
       \<and> fst ` set (accumulatedAfter rs) \<subseteq> resultKey ` {i. i < length rs}"
proof -
  have e: "accumulatedAfter [] = []" by (simp add: accumulatedAfter_def)
  have run: "delegateSequential_loop rt agents True before [] (accumulatedAfter []) s
      = (Ok rs, s1)"
    using assms by (simp add: delegateSequential_def e)
  have "delegateSequential rt agents (before @ [task]) True s
      = delegateSequential_loop rt agents True [task] rs (accumulatedAfter rs) s1"
    unfolding delegateSequential_def using loop_append [of rt agents True before "[task]" "[]" s]
    by (simp add: e run [unfolded e])
  also have "\<dots> = (case delegate rt agents
                   (task \<lparr> st_context := Some (spread
                       (case st_context task of None \<Rightarrow> [] | Some c \<Rightarrow> c)
                       (accumulatedAfter rs)) \<rparr>) s1 of
              (Throw e, s2) \<Rightarrow> (Throw e, s2)
            | (Ok r, s2) \<Rightarrow> (Ok (rs @ [r]), s2))"
    unfolding loop_step by (simp split: prod.splits res.splits)
  finally have first: "delegateSequential rt agents (before @ [task]) True s =
           (case delegate rt agents
                   (task \<lparr> st_context := Some (spread
                       (case st_context task of None \<Rightarrow> [] | Some c \<Rightarrow> c)
                       (accumulatedAfter rs)) \<rparr>) s1 of
              (Throw e, s2) \<Rightarrow> (Throw e, s2)
            | (Ok r, s2) \<Rightarrow> (Ok (rs @ [r]), s2))" .
  have len: "length rs = length before"
    using loop_length [OF run] by simp
  show ?thesis
    using first len accumulatedAfter_keys accumulatedAfter_dom by blast
qed

theorem delegateSequential_context_by_attempt_index_witness:
  "delegateSequential rtEcho sparkRegistry [workNoMatch, workCode] True (emptyState ())
     = (Ok seqResults, seqState)
   \<and> delegateSequential rtEcho sparkRegistry ([workNoMatch, workCode] @ [workCode]) True
       (emptyState ()) =
        (case delegate rtEcho sparkRegistry
                (workCode \<lparr> st_context := Some (spread
                    (case st_context workCode of None \<Rightarrow> [] | Some c \<Rightarrow> c)
                    (accumulatedAfter seqResults)) \<rparr>) seqState of
           (Throw e, s2) \<Rightarrow> (Throw e, s2)
         | (Ok r, s2) \<Rightarrow> (Ok (seqResults @ [r]), s2))
   \<and> map_of (accumulatedAfter seqResults) (resultKey 0) = None
   \<and> map_of (accumulatedAfter seqResults) (resultKey 1) = Some (JObj [])"
proof -
  note T = delegateSequential_context_by_attempt_index [OF seq_two, of workCode]
  have k0: "map_of (accumulatedAfter seqResults) (resultKey 0) = None"
    using T [THEN conjunct2, THEN conjunct2, THEN conjunct1, rule_format, of 0]
    by (simp add: seqResults_def)
  have k1: "map_of (accumulatedAfter seqResults) (resultKey 1) = Some (JObj [])"
    using T [THEN conjunct2, THEN conjunct2, THEN conjunct1, rule_format, of 1]
    by (simp add: seqResults_def)
  show ?thesis using seq_two T [THEN conjunct1] k0 k1 by simp
qed

section \<open>Properties of the Spark agent client\<close>

text \<open>
  Claim C10 fails as stated. \<open>create\<close> and \<open>start\<close> stand before the \<open>try\<close> and \<open>emit\<close>
  does not catch: with a throwing handler subscribed, \<open>execute\<close> raises to its caller and
  leaves the task it has created pending.
\<close>

theorem execute_raises_with_throwing_handler_counterexample:
  "tasks throwingState = []
   \<and> eventHandlers throwingState = [throwingHandler]
   \<and> fst (execute rt0 workCode throwingState) = Throw (Error ''handler failed'')
   \<and> map (\<lambda>kt. (fst kt, status (snd kt))) (tasks (snd (execute rt0 workCode throwingState)))
       = [(''uuid-0'', Pending)]"
  by (simp add: execute_def execute_begin_def execute_resume_def execute_try_def
      awaitResult_def successResult_def sparkRequest_def workCode_def workNoMatch_def
      throwingState_def onEvent_def throwingHandler_def rt0_def create_def
      start_def finish_def taskError_def emitAndReturn_def emit_def emptyState_def Let_def
      show_nat_digit)

lemma successResult_value:
  "res \<noteq> JNull \<Longrightarrow> res \<noteq> JUndefined \<Longrightarrow>
   successResult rt ident res =
     Ok (let prop = (\<lambda>k. case res of
                          JObj kvs \<Rightarrow> (case map_of kvs k of None \<Rightarrow> JUndefined | Some v \<Rightarrow> v)
                        | other \<Rightarrow> JUndefined)
         in \<lparr> success = True, res_taskId = ident, res_output = prop ''output'',
              res_artifacts = prop ''artifacts'', res_error = None,
              res_metadata = Some [(''duration'', prop ''duration''),
                 (''tokensUsed'', prop ''tokensUsed'')] \<rparr>)"
  by (cases res) (simp_all add: successResult_def)

text \<open>
  Claim C10 as amended. When every subscribed handler returns and the identifier drawn
  is not yet a key of the store, \<open>execute\<close> returns a result without raising and adds
  exactly one task, under that identifier. The task is created pending and is running
  when the request is sent; it ends completed or failed, \<open>success\<close> holds exactly when it
  ends completed, and the \<open>taskId\<close> of the result is the identifier of the task. If
  \<open>fetch\<close> rejects, if the status is not ok, or if the body is not JSON, the task ends
  failed with the message of the error, which the result carries too; for a status that
  is not ok the message is \<open>Spark Agent error:\<close> followed by the text of the response.
  If the status is ok and the body is a JSON value other than \<open>null\<close>, the task ends
  completed with the body as its result, and the result is the success record whose
  fields are read from the body.
\<close>

theorem execute_tracks_one_task:
  assumes "handlersReturn s"
    and "randomUUID rt (uuidsDrawn s) \<notin> fst ` set (tasks s)"
  shows "\<exists>r t t0 s0 s1.
           execute_begin rt task s = (Ok t0, s0)
         \<and> status t0 = Pending \<and> task_id t0 = randomUUID rt (uuidsDrawn s)
         \<and> map_option status (getTask (randomUUID rt (uuidsDrawn s)) s0) = Some Running
         \<and> execute rt task s = (Ok r, s1)
         \<and> tasks s1 = tasks s @ [(randomUUID rt (uuidsDrawn s), t)]
         \<and> task_id t = randomUUID rt (uuidsDrawn s)
         \<and> res_taskId r = randomUUID rt (uuidsDrawn s)
         \<and> (success r \<longleftrightarrow> status t = Completed)
         \<and> (status t = Completed \<or> status t = Failed)
         \<and> (\<forall>e. fetch rt \<lparr> req_prompt = prompt task,
                      req_capabilities = st_capabilities task,
                      req_context = st_context task,
                      req_constraints = constraints task \<rparr> = FetchRejected e
              \<longrightarrow> status t = Failed
                \<and> error t = Some (messageOr ''Unknown error'' e)
                \<and> res_error r = Some (messageOr ''Unknown error'' e))
         \<and> (\<forall>response e. fetch rt \<lparr> req_prompt = prompt task,
                      req_capabilities = st_capabilities task,
                      req_context = st_context task,
                      req_constraints = constraints task \<rparr> = FetchResolved response
                \<and> \<not> resp_ok response \<and> resp_text response = Throw e
              \<longrightarrow> status t = Failed
                \<and> error t = Some (messageOr ''Unknown error'' e)
                \<and> res_error r = Some (messageOr ''Unknown error'' e))
         \<and> (\<forall>response reply. fetch rt \<lparr> req_prompt = prompt task,
                      req_capabilities = st_capabilities task,
                      req_context = st_context task,
                      req_constraints = constraints task \<rparr> = FetchResolved response
                \<and> \<not> resp_ok response \<and> resp_text response = Ok reply
              \<longrightarrow> status t = Failed
                \<and> error t = Some (''Spark Agent error: '' @ reply)
                \<and> res_error r = Some (''Spark Agent error: '' @ reply))
         \<and> (\<forall>response e. fetch rt \<lparr> req_prompt = prompt task,
                      req_capabilities = st_capabilities task,
                      req_context = st_context task,
                      req_constraints = constraints task \<rparr> = FetchResolved response
                \<and> resp_ok response \<and> resp_json response = Throw e
              \<longrightarrow> status t = Failed
                \<and> error t = Some (messageOr ''Unknown error'' e)
                \<and> res_error r = Some (messageOr ''Unknown error'' e))
         \<and> (\<forall>response body. fetch rt \<lparr> req_prompt = prompt task,
                      req_capabilities = st_capabilities task,
                      req_context = st_context task,
                      req_constraints = constraints task \<rparr> = FetchResolved response
                \<and> resp_ok response \<and> resp_json response = Ok body
                \<and> body \<noteq> JNull \<and> body \<noteq> JUndefined
              \<longrightarrow> status t = Completed \<and> result t = body \<and> error t = None
                \<and> r = (let prop = (\<lambda>k. case body of
                              JObj kvs \<Rightarrow>
                                (case map_of kvs k of None \<Rightarrow> JUndefined | Some v \<Rightarrow> v)
                            | other \<Rightarrow> JUndefined)
                       in \<lparr> success = True, res_taskId = randomUUID rt (uuidsDrawn s),
                            res_output = prop ''output'',
                            res_artifacts = prop ''artifacts'', res_error = None,
                            res_metadata = Some [(''duration'', prop ''duration''),
                               (''tokensUsed'', prop ''tokensUsed'')] \<rparr>))"
proof -
  let ?id = "randomUUID rt (uuidsDrawn s)"
  let ?req = "\<lparr> req_prompt = prompt task, req_capabilities = st_capabilities task,
                 req_context = st_context task, req_constraints = constraints task \<rparr>"
  from execute_begin_return [OF assms, of task] obtain t0 s0 where
    b: "execute_begin rt task s = (Ok t0, s0)"
    and t0: "task_id t0 = ?id" "status t0 = Pending" "error t0 = None"
    and ts0: "tasks s0 = tasks s @ [(?id, t0 \<lparr> status := Running,
        startedAt := Some (dateNow rt (Suc (clockReads s))) \<rparr>)]"
    and h0: "handlersReturn s0"
    by blast
  let ?t1 = "t0 \<lparr> status := Running, startedAt := Some (dateNow rt (Suc (clockReads s))) \<rparr>"
  have p0: "map_of (tasks s0) (task_id t0) = Some ?t1"
    unfolding ts0 t0 by (rule map_of_last [OF assms(2)])
  from execute_resume_return [OF h0 p0, of rt task] obtain r t s1 where
    e: "execute_resume rt (task, t0) s0 = (Ok r, s1)"
    and ts1: "tasks s1 = AList.update (task_id t0) t (tasks s0)"
    and r: "res_taskId r = task_id t0" "success r \<longleftrightarrow> status t = Completed"
      "status t = Completed \<or> status t = Failed" "task_id t = task_id ?t1"
    and c: "(case awaitResult rt task of
                Throw e \<Rightarrow> status t = Failed
                  \<and> error t = Some (messageOr ''Unknown error'' e)
                  \<and> res_error r = Some (messageOr ''Unknown error'' e)
              | Ok res \<Rightarrow>
                  (case successResult rt (task_id t0) res of
                     Ok r1 \<Rightarrow> r = r1 \<and> status t = Completed \<and> result t = res
                       \<and> error t = error ?t1
                   | Throw e \<Rightarrow> status t = Failed \<and> result t = res
                       \<and> error t = Some (messageOr ''Unknown error'' e)
                       \<and> res_error r = Some (messageOr ''Unknown error'' e)))"
    by blast
  have ex: "execute rt task s = (Ok r, s1)" by (simp add: execute_def b e)
  have ts: "tasks s1 = tasks s @ [(?id, t)]"
    unfolding ts1 ts0 t0 by (rule update_last [OF assms(2)])
  have run: "map_option status (getTask ?id s0) = Some Running"
    using p0 by (simp add: getTask_def t0)
  have thrown: "status t = Failed \<and> error t = Some (messageOr ''Unknown error'' x)
      \<and> res_error r = Some (messageOr ''Unknown error'' x)"
    if "awaitResult rt task = Throw x" for x
    using c that by simp
  have k1: "\<forall>e. fetch rt ?req = FetchRejected e
      \<longrightarrow> status t = Failed
        \<and> error t = Some (messageOr ''Unknown error'' e)
        \<and> res_error r = Some (messageOr ''Unknown error'' e)"
  proof (intro allI impI)
    fix e assume "fetch rt ?req = FetchRejected e"
    then have "awaitResult rt task = Throw e"
      by (simp add: awaitResult_def sparkRequest_def)
    then show "status t = Failed \<and> error t = Some (messageOr ''Unknown error'' e)
        \<and> res_error r = Some (messageOr ''Unknown error'' e)"
      by (rule thrown)
  qed
  have k2: "\<forall>response e. fetch rt ?req = FetchResolved response
        \<and> \<not> resp_ok response \<and> resp_text response = Throw e
      \<longrightarrow> status t = Failed
        \<and> error t = Some (messageOr ''Unknown error'' e)
        \<and> res_error r = Some (messageOr ''Unknown error'' e)"
  proof (intro allI impI)
    fix response e
    assume "fetch rt ?req = FetchResolved response
        \<and> \<not> resp_ok response \<and> resp_text response = Throw e"
    then have "awaitResult rt task = Throw e"
      by (simp add: awaitResult_def sparkRequest_def)
    then show "status t = Failed \<and> error t = Some (messageOr ''Unknown error'' e)
        \<and> res_error r = Some (messageOr ''Unknown error'' e)"
      by (rule thrown)
  qed
  have k3: "\<forall>response reply. fetch rt ?req = FetchResolved response
        \<and> \<not> resp_ok response \<and> resp_text response = Ok reply
      \<longrightarrow> status t = Failed
        \<and> error t = Some (''Spark Agent error: '' @ reply)
        \<and> res_error r = Some (''Spark Agent error: '' @ reply)"
  proof (intro allI impI)
    fix response reply
    assume "fetch rt ?req = FetchResolved response
        \<and> \<not> resp_ok response \<and> resp_text response = Ok reply"
    then have "awaitResult rt task = Throw (Error (''Spark Agent error: '' @ reply))"
      by (simp add: awaitResult_def sparkRequest_def)
    from thrown [OF this]
    show "status t = Failed \<and> error t = Some (''Spark Agent error: '' @ reply)
        \<and> res_error r = Some (''Spark Agent error: '' @ reply)"
      by simp
  qed
  have k4: "\<forall>response e. fetch rt ?req = FetchResolved response
        \<and> resp_ok response \<and> resp_json response = Throw e
      \<longrightarrow> status t = Failed
        \<and> error t = Some (messageOr ''Unknown error'' e)
        \<and> res_error r = Some (messageOr ''Unknown error'' e)"
  proof (intro allI impI)
    fix response e
    assume "fetch rt ?req = FetchResolved response
        \<and> resp_ok response \<and> resp_json response = Throw e"
    then have "awaitResult rt task = Throw e"
      by (simp add: awaitResult_def sparkRequest_def)
    then show "status t = Failed \<and> error t = Some (messageOr ''Unknown error'' e)
        \<and> res_error r = Some (messageOr ''Unknown error'' e)"
      by (rule thrown)
  qed
  have k5: "\<forall>response body. fetch rt ?req = FetchResolved response
        \<and> resp_ok response \<and> resp_json response = Ok body
        \<and> body \<noteq> JNull \<and> body \<noteq> JUndefined
      \<longrightarrow> status t = Completed \<and> result t = body \<and> error t = None
        \<and> r = (let prop = (\<lambda>k. case body of
                      JObj kvs \<Rightarrow>
                        (case map_of kvs k of None \<Rightarrow> JUndefined | Some v \<Rightarrow> v)
                    | other \<Rightarrow> JUndefined)
               in \<lparr> success = True, res_taskId = ?id,
                    res_output = prop ''output'',
                    res_artifacts = prop ''artifacts'', res_error = None,
                    res_metadata = Some [(''duration'', prop ''duration''),
                       (''tokensUsed'', prop ''tokensUsed'')] \<rparr>)"
  proof (intro allI impI)
    fix response body
    assume a: "fetch rt ?req = FetchResolved response
        \<and> resp_ok response \<and> resp_json response = Ok body
        \<and> body \<noteq> JNull \<and> body \<noteq> JUndefined"
    then have aw: "awaitResult rt task = Ok body"
      by (simp add: awaitResult_def sparkRequest_def)
    have nn: "body \<noteq> JNull" "body \<noteq> JUndefined" using a by simp_all
    have sv: "successResult rt (task_id t0) body =
        Ok (let prop = (\<lambda>k. case body of
                      JObj kvs \<Rightarrow>
                        (case map_of kvs k of None \<Rightarrow> JUndefined | Some v \<Rightarrow> v)
                    | other \<Rightarrow> JUndefined)
            in \<lparr> success = True, res_taskId = task_id t0,
                 res_output = prop ''output'',
                 res_artifacts = prop ''artifacts'', res_error = None,
                 res_metadata = Some [(''duration'', prop ''duration''),
                    (''tokensUsed'', prop ''tokensUsed'')] \<rparr>)"
      using nn by (rule successResult_value)
    from c [unfolded aw res.case sv] have "r = (let prop = (\<lambda>k. case body of
                      JObj kvs \<Rightarrow>
                        (case map_of kvs k of None \<Rightarrow> JUndefined | Some v \<Rightarrow> v)
                    | other \<Rightarrow> JUndefined)
               in \<lparr> success = True, res_taskId = task_id t0,
                    res_output = prop ''output'',
                    res_artifacts = prop ''artifacts'', res_error = None,
                    res_metadata = Some [(''duration'', prop ''duration''),
                       (''tokensUsed'', prop ''tokensUsed'')] \<rparr>)
        \<and> status t = Completed \<and> result t = body \<and> error t = error ?t1"
      by simp
    then show "status t = Completed \<and> result t = body \<and> error t = None
        \<and> r = (let prop = (\<lambda>k. case body of
                      JObj kvs \<Rightarrow>
                        (case map_of kvs k of None \<Rightarrow> JUndefined | Some v \<Rightarrow> v)
                    | other \<Rightarrow> JUndefined)
               in \<lparr> success = True, res_taskId = ?id,
                    res_output = prop ''output'',
                    res_artifacts = prop ''artifacts'', res_error = None,
                    res_metadata = Some [(''duration'', prop ''duration''),
                       (''tokensUsed'', prop ''tokensUsed'')] \<rparr>)"
      using t0 by simp
  qed
  have basic: "execute_begin rt task s = (Ok t0, s0)
         \<and> status t0 = Pending \<and> task_id t0 = ?id
         \<and> map_option status (getTask ?id s0) = Some Running
         \<and> execute rt task s = (Ok r, s1)
         \<and> tasks s1 = tasks s @ [(?id, t)]
         \<and> task_id t = ?id
         \<and> res_taskId r = ?id
         \<and> (success r \<longleftrightarrow> status t = Completed)
         \<and> (status t = Completed \<or> status t = Failed)"
    using b t0 run ex ts r by simp
  show ?thesis
    apply (rule_tac exI [of _ r], rule_tac exI [of _ t], rule_tac exI [of _ t0],
        rule_tac exI [of _ s0], rule_tac exI [of _ s1])
    apply (intro conjI)
    apply (rule basic [THEN conjunct1])
    apply (rule basic [THEN conjunct2, THEN conjunct1])
    apply (rule basic [THEN conjunct2, THEN conjunct2, THEN conjunct1])
    apply (rule basic [THEN conjunct2, THEN conjunct2, THEN conjunct2, THEN conjunct1])
    apply (rule basic [THEN conjunct2, THEN conjunct2, THEN conjunct2, THEN conjunct2,
        THEN conjunct1])
    apply (rule basic [THEN conjunct2, THEN conjunct2, THEN conjunct2, THEN conjunct2,
        THEN conjunct2, THEN conjunct1])
    apply (rule basic [THEN conjunct2, THEN conjunct2, THEN conjunct2, THEN conjunct2,
        THEN conjunct2, THEN conjunct2, THEN conjunct1])
    apply (rule basic [THEN conjunct2, THEN conjunct2, THEN conjunct2, THEN conjunct2,
        THEN conjunct2, THEN conjunct2, THEN conjunct2, THEN conjunct1])
    apply (rule basic [THEN conjunct2, THEN conjunct2, THEN conjunct2, THEN conjunct2,
        THEN conjunct2, THEN conjunct2, THEN conjunct2, THEN conjunct2, THEN conjunct1])
    apply (rule basic [THEN conjunct2, THEN conjunct2, THEN conjunct2, THEN conjunct2,
        THEN conjunct2, THEN conjunct2, THEN conjunct2, THEN conjunct2, THEN conjunct2])
    apply (rule k1)
    apply (rule k2)
    apply (rule k3)
    apply (rule k4)
    apply (rule k5)
    done
qed

theorem execute_tracks_one_task_witness:
  "handlersReturn (emptyState ())
   \<and> randomUUID rtEcho (uuidsDrawn (emptyState ())) \<notin> fst ` set (tasks (emptyState ()))
   \<and> fetch rtEcho \<lparr> req_prompt = prompt workCode,
            req_capabilities = st_capabilities workCode,
            req_context = st_context workCode,
            req_constraints = constraints workCode \<rparr>
       = FetchResolved \<lparr> resp_ok = True, resp_text = Ok [],
           resp_json = Ok (JObj [(''output'', JObj [])]) \<rparr>
   \<and> (\<exists>t s1. execute rtEcho workCode (emptyState ())
              = (Ok \<lparr> success = True, res_taskId = ''uuid-0'', res_output = JObj [],
                 res_artifacts = JUndefined, res_error = None,
                 res_metadata = Some [(''duration'', JUndefined),
                    (''tokensUsed'', JUndefined)] \<rparr>, s1)
         \<and> tasks s1 = [(''uuid-0'', t)]
         \<and> task_id t = ''uuid-0'' \<and> status t = Completed
         \<and> result t = JObj [(''output'', JObj [])] \<and> error t = None)
   \<and> fst (execute rtEcho workCode (emptyState ()))
       = Ok \<lparr> success = True, res_taskId = ''uuid-0'', res_output = JObj [],
                 res_artifacts = JUndefined, res_error = None,
                 res_metadata = Some [(''duration'', JUndefined),
                    (''tokensUsed'', JUndefined)] \<rparr>
   \<and> map (\<lambda>kt. (fst kt, status (snd kt), result (snd kt), error (snd kt)))
        (tasks (snd (execute rtEcho workCode (emptyState ()))))
       = [(''uuid-0'', Completed, JObj [(''output'', JObj [])], None)]
   \<and> fetch rt0 \<lparr> req_prompt = prompt workCode,
            req_capabilities = st_capabilities workCode,
            req_context = st_context workCode,
            req_constraints = constraints workCode \<rparr>
       = FetchRejected (Error ''fetch failed'')
   \<and> (\<exists>r t s1. execute rt0 workCode (emptyState ()) = (Ok r, s1)
         \<and> tasks s1 = [(''uuid-0'', t)]
         \<and> task_id t = ''uuid-0'' \<and> res_taskId r = ''uuid-0'' \<and> \<not> success r
         \<and> status t = Failed \<and> error t = Some ''fetch failed''
         \<and> res_error r = Some ''fetch failed'')
   \<and> fst (execute rt0 workCode (emptyState ()))
       = Ok \<lparr> success = False, res_taskId = ''uuid-0'', res_output = JUndefined,
                 res_artifacts = JUndefined, res_error = Some ''fetch failed'',
                 res_metadata = None \<rparr>
   \<and> map (\<lambda>kt. (fst kt, status (snd kt), result (snd kt), error (snd kt)))
        (tasks (snd (execute rt0 workCode (emptyState ()))))
       = [(''uuid-0'', Failed, JUndefined, Some ''fetch failed'')]
   \<and> fetch rtUnavailable \<lparr> req_prompt = prompt workCode,
            req_capabilities = st_capabilities workCode,
            req_context = st_context workCode,
            req_constraints = constraints workCode \<rparr>
       = FetchResolved \<lparr> resp_ok = False, resp_text = Ok ''Service Unavailable'',
           resp_json = Throw (Error ''Unexpected token S in JSON at position 0'') \<rparr>
   \<and> (\<exists>r t s1. execute rtUnavailable workCode (emptyState ()) = (Ok r, s1)
         \<and> tasks s1 = [(''uuid-0'', t)]
         \<and> task_id t = ''uuid-0'' \<and> res_taskId r = ''uuid-0'' \<and> \<not> success r
         \<and> status t = Failed \<and> error t = Some ''Spark Agent error: Service Unavailable''
         \<and> res_error r = Some ''Spark Agent error: Service Unavailable'')
   \<and> fst (execute rtUnavailable workCode (emptyState ()))
       = Ok \<lparr> success = False, res_taskId = ''uuid-0'', res_output = JUndefined,
                 res_artifacts = JUndefined, res_error = Some ''Spark Agent error: Service Unavailable'',
                 res_metadata = None \<rparr>
   \<and> map (\<lambda>kt. (fst kt, status (snd kt), result (snd kt), error (snd kt)))
        (tasks (snd (execute rtUnavailable workCode (emptyState ()))))
       = [(''uuid-0'', Failed, JUndefined, Some ''Spark Agent error: Service Unavailable'')]"
proof -
  have h1: "handlersReturn (emptyState ())"
    by (simp add: handlersReturn_def emptyState_def)
  have h2: "randomUUID rtEcho (uuidsDrawn (emptyState ())) \<notin> fst ` set (tasks (emptyState ()))"
    "randomUUID rt0 (uuidsDrawn (emptyState ())) \<notin> fst ` set (tasks (emptyState ()))"
    "randomUUID rtUnavailable (uuidsDrawn (emptyState ())) \<notin> fst ` set (tasks (emptyState ()))"
    by (simp_all add: emptyState_def)
  have f1: "fetch rtEcho \<lparr> req_prompt = prompt workCode,
            req_capabilities = st_capabilities workCode,
            req_context = st_context workCode,
            req_constraints = constraints workCode \<rparr>
       = FetchResolved \<lparr> resp_ok = True, resp_text = Ok [],
           resp_json = Ok (JObj [(''output'', JObj [])]) \<rparr>"
    by (simp add: workCode_def workNoMatch_def rtEcho_def rtUnavailable_def echoFetch_def rt0_def
        emptyState_def show_nat_digit)
  have f2: "fetch rt0 \<lparr> req_prompt = prompt workCode,
            req_capabilities = st_capabilities workCode,
            req_context = st_context workCode,
            req_constraints = constraints workCode \<rparr>
       = FetchRejected (Error ''fetch failed'')"
    by (simp add: workCode_def workNoMatch_def rtEcho_def rtUnavailable_def echoFetch_def rt0_def
        emptyState_def show_nat_digit)
  have f3: "fetch rtUnavailable \<lparr> req_prompt = prompt workCode,
            req_capabilities = st_capabilities workCode,
            req_context = st_context workCode,
            req_constraints = constraints workCode \<rparr>
       = FetchResolved \<lparr> resp_ok = False, resp_text = Ok ''Service Unavailable'',
           resp_json = Throw (Error ''Unexpected token S in JSON at position 0'') \<rparr>"
    by (simp add: workCode_def workNoMatch_def rtEcho_def rtUnavailable_def echoFetch_def rt0_def
        emptyState_def show_nat_digit)
  have x1: "(\<exists>t s1. execute rtEcho workCode (emptyState ())
              = (Ok \<lparr> success = True, res_taskId = ''uuid-0'', res_output = JObj [],
                 res_artifacts = JUndefined, res_error = None,
                 res_metadata = Some [(''duration'', JUndefined),
                    (''tokensUsed'', JUndefined)] \<rparr>, s1)
         \<and> tasks s1 = [(''uuid-0'', t)]
         \<and> task_id t = ''uuid-0'' \<and> status t = Completed
         \<and> result t = JObj [(''output'', JObj [])] \<and> error t = None)"
    using execute_tracks_one_task [OF h1 h2(1), of workCode] f1
    by (elim exE conjE) (simp add: workCode_def workNoMatch_def rtEcho_def rtUnavailable_def echoFetch_def rt0_def
        emptyState_def show_nat_digit)
  have x2: "(\<exists>r t s1. execute rt0 workCode (emptyState ()) = (Ok r, s1)
         \<and> tasks s1 = [(''uuid-0'', t)]
         \<and> task_id t = ''uuid-0'' \<and> res_taskId r = ''uuid-0'' \<and> \<not> success r
         \<and> status t = Failed \<and> error t = Some ''fetch failed''
         \<and> res_error r = Some ''fetch failed'')"
    using execute_tracks_one_task [OF h1 h2(2), of workCode] f2
    by (elim exE conjE) (simp add: workCode_def workNoMatch_def rtEcho_def rtUnavailable_def echoFetch_def rt0_def
        emptyState_def show_nat_digit)
  have x3: "(\<exists>r t s1. execute rtUnavailable workCode (emptyState ()) = (Ok r, s1)
         \<and> tasks s1 = [(''uuid-0'', t)]
         \<and> task_id t = ''uuid-0'' \<and> res_taskId r = ''uuid-0'' \<and> \<not> success r
         \<and> status t = Failed \<and> error t = Some ''Spark Agent error: Service Unavailable''
         \<and> res_error r = Some ''Spark Agent error: Service Unavailable'')"
    using execute_tracks_one_task [OF h1 h2(3), of workCode] f3
    by (elim exE conjE) (simp add: workCode_def workNoMatch_def rtEcho_def rtUnavailable_def echoFetch_def rt0_def
        emptyState_def show_nat_digit)
  have d1: "fst (execute rtEcho workCode (emptyState ()))
       = Ok \<lparr> success = True, res_taskId = ''uuid-0'', res_output = JObj [],
                 res_artifacts = JUndefined, res_error = None,
                 res_metadata = Some [(''duration'', JUndefined),
                    (''tokensUsed'', JUndefined)] \<rparr>
   \<and> map (\<lambda>kt. (fst kt, status (snd kt), result (snd kt), error (snd kt)))
        (tasks (snd (execute rtEcho workCode (emptyState ()))))
       = [(''uuid-0'', Completed, JObj [(''output'', JObj [])], None)]"
    by (simp add: execute_def execute_begin_def execute_resume_def execute_try_def
        awaitResult_def successResult_def sparkRequest_def workCode_def workNoMatch_def
        rtEcho_def rtUnavailable_def echoFetch_def rt0_def create_def
        start_def finish_def taskError_def emitAndReturn_def emit_def emptyState_def Let_def
        show_nat_digit)
  have d2: "fst (execute rt0 workCode (emptyState ()))
       = Ok \<lparr> success = False, res_taskId = ''uuid-0'', res_output = JUndefined,
                 res_artifacts = JUndefined, res_error = Some ''fetch failed'',
                 res_metadata = None \<rparr>
   \<and> map (\<lambda>kt. (fst kt, status (snd kt), result (snd kt), error (snd kt)))
        (tasks (snd (execute rt0 workCode (emptyState ()))))
       = [(''uuid-0'', Failed, JUndefined, Some ''fetch failed'')]"
    by (simp add: execute_def execute_begin_def execute_resume_def execute_try_def
        awaitResult_def successResult_def sparkRequest_def workCode_def workNoMatch_def
        rtEcho_def rtUnavailable_def echoFetch_def rt0_def create_def
        start_def finish_def taskError_def emitAndReturn_def emit_def emptyState_def Let_def
        show_nat_digit)
  have d3: "fst (execute rtUnavailable workCode (emptyState ()))
       = Ok \<lparr> success = False, res_taskId = ''uuid-0'', res_output = JUndefined,
                 res_artifacts = JUndefined, res_error = Some ''Spark Agent error: Service Unavailable'',
                 res_metadata = None \<rparr>
   \<and> map (\<lambda>kt. (fst kt, status (snd kt), result (snd kt), error (snd kt)))
        (tasks (snd (execute rtUnavailable workCode (emptyState ()))))
       = [(''uuid-0'', Failed, JUndefined, Some ''Spark Agent error: Service Unavailable'')]"
    by (simp add: execute_def execute_begin_def execute_resume_def execute_try_def
        awaitResult_def successResult_def sparkRequest_def workCode_def workNoMatch_def
        rtEcho_def rtUnavailable_def echoFetch_def rt0_def create_def
        start_def finish_def taskError_def emitAndReturn_def emit_def emptyState_def Let_def
        show_nat_digit)
  show ?thesis
    apply (intro conjI)
    apply (rule h1)
    apply (rule h2(1))
    apply (rule f1)
    apply (rule x1)
    apply (rule d1 [THEN conjunct1])
    apply (rule d1 [THEN conjunct2])
    apply (rule f2)
    apply (rule x2)
    apply (rule d2 [THEN conjunct1])
    apply (rule d2 [THEN conjunct2])
    apply (rule f3)
    apply (rule x3)
    apply (rule d3 [THEN conjunct1])
    apply (rule d3 [THEN conjunct2])
    done
qed

section \<open>Properties of parallel delegation\<close>

lemma execute_resume_handlers [simp]:
  "eventHandlers (snd (execute_resume rt p s)) = eventHandlers s"
proof -
  obtain w t0 where p: "p = (w, t0)" by (cases p)
  have a: "eventHandlers (snd (execute_try rt w ident s)) = eventHandlers s" for ident
  proof (cases "awaitResult rt w")
    case (Throw e)
    then show ?thesis by (simp add: execute_try_def)
  next
    case (Ok res)
    obtain q sF where f: "finish rt ident res s = (q, sF)" by (cases "finish rt ident res s")
    then have "eventHandlers sF = eventHandlers s"
      using mutator_handlers(2) [of rt ident res s] by simp
    then show ?thesis by (cases q) (simp_all add: execute_try_def Ok f)
  qed
  obtain x s1 where t: "execute_try rt w (task_id t0) s = (x, s1)"
    by (cases "execute_try rt w (task_id t0) s")
  then have h1: "eventHandlers s1 = eventHandlers s" using a [of "task_id t0"] by simp
  show ?thesis
  proof (cases x)
    case (Ok r)
    then show ?thesis using h1 by (simp add: execute_resume_def p t)
  next
    case (Throw e)
    obtain q s2 where te: "taskError rt (task_id t0) (messageOr ''Unknown error'' e) s1 = (q, s2)"
      by (cases "taskError rt (task_id t0) (messageOr ''Unknown error'' e) s1")
    then have "eventHandlers s2 = eventHandlers s1"
      using mutator_handlers(3) [of rt "task_id t0" "messageOr ''Unknown error'' e" s1] by simp
    then show ?thesis using h1 by (cases q) (simp_all add: execute_resume_def p t Throw te Let_def)
  qed
qed

lemma execute_resume_handlersReturn [simp]:
  "handlersReturn (snd (execute_resume rt p s)) = handlersReturn s"
  by (simp add: handlersReturn_def)

lemma execute_resume_result:
  assumes h: "handlersReturn s"
  shows "fst (execute_resume rt (w, t0) s) = Ok (resumeResult rt w (task_id t0))"
proof -
  let ?id = "task_id t0"
  have fail: "fst (case taskError rt ?id m sx of
         (Throw e2, s2) \<Rightarrow> (Throw e2, s2)
       | (Ok failed, s2) \<Rightarrow>
           (Ok \<lparr> success = False, res_taskId = ?id,
                 res_output = JUndefined, res_artifacts = JUndefined,
                 res_error = Some m, res_metadata = None \<rparr>, s2))
        = Ok (failureResult ?id m)" if "handlersReturn sx" for sx m
  proof -
    obtain q s3 where te: "taskError rt ?id m sx = (q, s3)" by (cases "taskError rt ?id m sx")
    then have "\<exists>v. q = Ok v" using taskError_return [OF that, of rt ?id m] by simp
    then show ?thesis unfolding te by (auto simp: failureResult_def)
  qed
  show ?thesis
  proof (cases "awaitResult rt w")
    case (Throw e)
    have "execute_resume rt (w, t0) s =
      (case taskError rt ?id (messageOr ''Unknown error'' e) s of
         (Throw e2, s2) \<Rightarrow> (Throw e2, s2)
       | (Ok failed, s2) \<Rightarrow>
           (Ok \<lparr> success = False, res_taskId = ?id,
                 res_output = JUndefined, res_artifacts = JUndefined,
                 res_error = Some (messageOr ''Unknown error'' e), res_metadata = None \<rparr>, s2))"
      by (simp add: execute_resume_def execute_try_def Throw Let_def)
    then show ?thesis using fail [OF h] by (simp add: resumeResult_def Throw)
  next
    case (Ok res)
    obtain q sF where fi: "finish rt ?id res s = (q, sF)" by (cases "finish rt ?id res s")
    then have "\<exists>v. q = Ok v" using finish_return [OF h, of rt ?id res] by simp
    then obtain v where q: "q = Ok v" by blast
    have hF: "handlersReturn sF"
      using h fi handlersReturn_kept(3) [of rt ?id res s] by simp
    show ?thesis
    proof (cases "successResult rt ?id res")
      case r: (Ok r1)
      have "execute_resume rt (w, t0) s = (Ok r1, sF)"
        by (simp add: execute_resume_def execute_try_def Ok fi q r)
      then show ?thesis by (simp add: resumeResult_def Ok r)
    next
      case t: (Throw e)
      have "execute_resume rt (w, t0) s =
        (case taskError rt ?id (messageOr ''Unknown error'' e) sF of
           (Throw e2, s2) \<Rightarrow> (Throw e2, s2)
         | (Ok failed, s2) \<Rightarrow>
             (Ok \<lparr> success = False, res_taskId = ?id,
                   res_output = JUndefined, res_artifacts = JUndefined,
                   res_error = Some (messageOr ''Unknown error'' e), res_metadata = None \<rparr>, s2))"
        by (simp add: execute_resume_def execute_try_def Ok fi q t Let_def)
      then show ?thesis using fail [OF hF] by (simp add: resumeResult_def Ok t)
    qed
  qed
qed

lemma execute_begin_ok:
  assumes h: "handlersReturn s"
  shows "\<exists>t0 s2. execute_begin rt task s = (Ok t0, s2)
          \<and> task_id t0 = randomUUID rt (uuidsDrawn s)
          \<and> eventHandlers s2 = eventHandlers s \<and> uuidsDrawn s2 = Suc (uuidsDrawn s)"
proof -
  let ?init = "\<lparr> init_name = ''Spark: '' @ st_name task,
               init_description = Some (prompt task),
               init_type = SubagentTask,
               init_parentId = None,
               init_metadata = Some [(''subagentId'', JStr ''spark-agent''),
                  (''capabilities'', JArr (st_capabilities task))],
               init_result = JUndefined, init_error = None,
               init_startedAt = None, init_completedAt = None \<rparr>"
  let ?id = "randomUUID rt (uuidsDrawn s)"
  obtain r1 s1 where c: "create rt ?init s = (r1, s1)" by (cases "create rt ?init s")
  then have s1: "s1 = snd (create rt ?init s)" and r1': "r1 = fst (create rt ?init s)" by simp_all
  obtain t0 where r1: "r1 = Ok t0" and t0: "task_id t0 = ?id"
    using create_return [OF h, of rt ?init] r1' by simp
  have h1: "handlersReturn s1" using h by (simp add: s1)
  obtain r2 s2 where st: "start rt ?id s1 = (r2, s2)" by (cases "start rt ?id s1")
  then have s2: "s2 = snd (start rt ?id s1)" and r2': "r2 = fst (start rt ?id s1)" by simp_all
  have "\<exists>v. r2 = Ok v" using start_return [OF h1, of rt ?id] r2' by simp
  then obtain v where r2: "r2 = Ok v" by blast
  have "execute_begin rt task s = (Ok t0, s2)"
    unfolding execute_begin_def c r1 by (simp add: t0 st r2)
  moreover have "eventHandlers s2 = eventHandlers s" by (simp add: s2 s1)
  moreover have "uuidsDrawn s2 = Suc (uuidsDrawn s)" by (simp add: s2 s1)
  ultimately show ?thesis using t0 by blast
qed
lemma delegate_value:
  assumes h: "handlersReturn s"
  shows "fst (delegate rt agents w s) = Ok (delegateValue rt agents w (uuidsDrawn s))"
proof (cases "findBestMatch (st_capabilities w) agents")
  case None
  then show ?thesis by (simp add: delegate_def delegate_begin_def delegateValue_def)
next
  case (Some agent)
  show ?thesis
  proof (cases "agent_id agent = ''spark-agent''")
    case False
    then show ?thesis using Some by (simp add: delegate_def delegate_begin_def delegateValue_def)
  next
    case True
    from execute_begin_ok [OF h, of rt w] obtain t0 s2 where
      b: "execute_begin rt w s = (Ok t0, s2)" and t0: "task_id t0 = randomUUID rt (uuidsDrawn s)"
      and h2: "eventHandlers s2 = eventHandlers s" by blast
    have "handlersReturn s2" using h h2 by (simp add: handlersReturn_def)
    then have "fst (execute_resume rt (w, t0) s2) = Ok (resumeResult rt w (task_id t0))"
      by (rule execute_resume_result)
    then show ?thesis using Some True b t0
      by (simp add: delegate_def delegate_begin_def delegateValue_def)
  qed
qed

lemma parallelValues_length [simp]: "length (parallelValues rt agents k ws) = length ws"
  by (induction ws arbitrary: k) simp_all

lemma parallelValues_nth:
  "i < length ws \<Longrightarrow>
   parallelValues rt agents k ws ! i =
     delegateValue rt agents (ws ! i) (k + length (filter (routedToSpark agents) (take i ws)))"
proof (induction ws arbitrary: k i)
  case Nil
  then show ?case by simp
next
  case (Cons w ws)
  show ?case
  proof (cases i)
    case 0
    then show ?thesis by simp
  next
    case (Suc j)
    then have "j < length ws" using Cons.prems by simp
    from Cons.IH [OF this] show ?thesis using Suc by simp
  qed
qed

lemma startAll_delegate_begin:
  assumes h: "handlersReturn s"
  shows "\<exists>ps s1. startAll (delegate_begin rt agents) ws s = (ps, s1)
          \<and> eventHandlers s1 = eventHandlers s
          \<and> (\<forall>e. Rejected e \<notin> set ps)
          \<and> fulfilledValues (resolveWith (\<lambda>p. resumeResult rt (fst p) (task_id (snd p))) ps)
              = parallelValues rt agents (uuidsDrawn s) ws"
  using h
proof (induction ws arbitrary: s)
  case Nil
  show ?case by (simp add: resolveWith_def)
next
  case (Cons w ws)
  let ?f = "\<lambda>p. resumeResult rt (fst p) (task_id (snd p))"
  have first: "\<exists>p s1. delegate_begin rt agents w s = (p, s1)
      \<and> eventHandlers s1 = eventHandlers s
      \<and> uuidsDrawn s1 = (if routedToSpark agents w then Suc (uuidsDrawn s) else uuidsDrawn s)
      \<and> (\<forall>e. p \<noteq> Rejected e)
      \<and> fulfilledValues (resolveWith ?f [p]) = [delegateValue rt agents w (uuidsDrawn s)]"
  proof (cases "findBestMatch (st_capabilities w) agents")
    case None
    then show ?thesis
      by (simp add: delegate_begin_def delegateValue_def routedToSpark_def resolveWith_def)
  next
    case (Some agent)
    show ?thesis
    proof (cases "agent_id agent = ''spark-agent''")
      case False
      then show ?thesis using Some
        by (simp add: delegate_begin_def delegateValue_def routedToSpark_def resolveWith_def)
    next
      case True
      from execute_begin_ok [OF Cons.prems, of rt w] obtain t0 s2 where
        b: "execute_begin rt w s = (Ok t0, s2)"
        and t0: "task_id t0 = randomUUID rt (uuidsDrawn s)"
        and h2: "eventHandlers s2 = eventHandlers s"
        and u2: "uuidsDrawn s2 = Suc (uuidsDrawn s)" by blast
      show ?thesis using Some True b t0 h2 u2
        by (simp add: delegate_begin_def delegateValue_def routedToSpark_def resolveWith_def)
    qed
  qed
  then obtain p s1 where p: "delegate_begin rt agents w s = (p, s1)"
    and h1: "eventHandlers s1 = eventHandlers s"
    and u1: "uuidsDrawn s1 = (if routedToSpark agents w then Suc (uuidsDrawn s) else uuidsDrawn s)"
    and nr: "\<forall>e. p \<noteq> Rejected e"
    and v: "fulfilledValues (resolveWith ?f [p]) = [delegateValue rt agents w (uuidsDrawn s)]"
    by blast
  have "handlersReturn s1" using Cons.prems h1 by (simp add: handlersReturn_def)
  from Cons.IH [OF this] obtain ps s2 where
    r: "startAll (delegate_begin rt agents) ws s1 = (ps, s2)"
    and h2: "eventHandlers s2 = eventHandlers s1"
    and nr2: "\<forall>e. Rejected e \<notin> set ps"
    and v2: "fulfilledValues (resolveWith ?f ps) = parallelValues rt agents (uuidsDrawn s1) ws"
    by blast
  have app: "fulfilledValues (resolveWith ?f (p # ps))
      = fulfilledValues (resolveWith ?f [p]) @ fulfilledValues (resolveWith ?f ps)"
    by (cases p) (simp_all add: resolveWith_def)
  have "startAll (delegate_begin rt agents) (w # ws) s = (p # ps, s2)"
    by (simp add: p r)
  moreover have "eventHandlers s2 = eventHandlers s" using h1 h2 by simp
  moreover have "\<forall>e. Rejected e \<notin> set (p # ps)" using nr nr2 by auto
  moreover have "fulfilledValues (resolveWith ?f (p # ps))
      = parallelValues rt agents (uuidsDrawn s) (w # ws)"
    using app v v2 u1 by simp
  ultimately show ?case by blast
qed
lemma promiseAll_rejected:
  "firstRejected ps = Some e \<Longrightarrow> promiseAll resume pick ps s = (Throw e, s)"
  by (subst promiseAll.simps) simp

text \<open>
  Claim C8 fails as stated: with a throwing handler subscribed, the first item routed to
  the Spark agent rejects in \<open>create\<close>, \<open>Promise.all\<close> rejects, and \<open>delegateParallel\<close> raises
  instead of returning an array.
\<close>

theorem delegateParallel_rejects_counterexample:
  "fst (delegateParallel rt0 (\<lambda>s. 0) sparkRegistry [workCode, workNoMatch] throwingState)
     = Throw (Error ''handler failed'')"
proof -
  have fbm: "findBestMatch (st_capabilities workCode) sparkRegistry = Some sparkAgentConfig"
    "findBestMatch (st_capabilities workNoMatch) sparkRegistry = None"
    by (simp_all add: workCode_def workNoMatch_def findBestMatch_def registry_values_def
        sparkRegistry_def register_def score_def sparkAgentConfig_def)
  have b: "fst (execute_begin rt0 workCode throwingState) = Throw (Error ''handler failed'')"
    by (simp add: execute_begin_def throwingState_def onEvent_def throwingHandler_def
        create_def emitAndReturn_def emit_def emptyState_def Let_def)
  obtain x s1 where x: "execute_begin rt0 workCode throwingState = (x, s1)"
    by (cases "execute_begin rt0 workCode throwingState")
  then have x': "x = Throw (Error ''handler failed'')" using b by simp
  have "startAll (delegate_begin rt0 sparkRegistry) [workCode, workNoMatch] throwingState
      = ([Rejected (Error ''handler failed''), Fulfilled (noSubagentFound workNoMatch)], s1)"
    by (simp add: delegate_begin_def fbm x x' sparkAgentConfig_def)
  then show ?thesis
    by (simp add: delegateParallel_def promiseAll_rejected)
qed

text \<open>
  Claim C8 as amended. When every subscribed handler returns, \<open>delegateParallel\<close> returns
  an array with one result for each work item, in the order of the items, whatever the
  order in which the backends answer. The result at position \<open>i\<close> is the result that
  \<open>delegate\<close> alone returns for item \<open>i\<close> from the initial state in which the identifiers
  of the items routed to the Spark agent before it have been drawn: it depends on no
  other item, failed or not.
\<close>

theorem delegateParallel_results_in_order:
  fixes s :: "'w state"
  assumes "handlersReturn s"
  shows "\<exists>rs s1. delegateParallel rt pick agents works s = (Ok rs, s1)
          \<and> length rs = length works
          \<and> (\<forall>i < length works.
                fst (delegate rt agents (works ! i)
                       (s \<lparr> uuidsDrawn := uuidsDrawn s
                            + length (filter (routedToSpark agents) (take i works)) \<rparr>))
                  = Ok (rs ! i))"
proof -
  let ?f = "\<lambda>p. resumeResult rt (fst p) (task_id (snd p))"
  from startAll_delegate_begin [OF assms, of rt agents works] obtain ps s0 where
    st: "startAll (delegate_begin rt agents) works s = (ps, s0)"
    and h0: "eventHandlers s0 = eventHandlers s"
    and nr: "\<forall>e. Rejected e \<notin> set ps"
    and v: "fulfilledValues (resolveWith ?f ps) = parallelValues rt agents (uuidsDrawn s) works"
    by blast
  have hs0: "handlersReturn s0" using assms h0 by (simp add: handlersReturn_def)
  have out: "if (\<exists>e. Rejected e \<in> set ps) \<or> (\<exists>p. Waiting p \<in> set ps \<and> False)
         then (\<exists>e \<in> UNIV. fst (promiseAll (execute_resume rt) pick ps s0) = Throw e)
         else fst (promiseAll (execute_resume rt) pick ps s0)
                = Ok (fulfilledValues (resolveWith ?f ps))"
  proof (rule promiseAll_outcome [where P = handlersReturn and bad = "\<lambda>p. False"
        and err = "\<lambda>p. Error []"])
    show "handlersReturn s0" by (rule hs0)
  next
    fix p :: "SubagentTask \<times> Task" and sx :: "'w state"
    assume "handlersReturn sx"
    then show "handlersReturn (snd (execute_resume rt p sx))" by simp
  next
    fix p :: "SubagentTask \<times> Task" and sx :: "'w state"
    assume hx: "handlersReturn sx"
    obtain w t0 where p: "p = (w, t0)" by (cases p)
    show "fst (execute_resume rt p sx) = (if False then Throw (Error []) else Ok (?f p))"
      using execute_resume_result [OF hx, of rt w t0] by (simp add: p)
  qed simp_all
  then have res: "fst (promiseAll (execute_resume rt) pick ps s0)
      = Ok (parallelValues rt agents (uuidsDrawn s) works)"
    using nr v by simp
  obtain q s1 where pa: "promiseAll (execute_resume rt) pick ps s0 = (q, s1)"
    by (cases "promiseAll (execute_resume rt) pick ps s0")
  let ?rs = "parallelValues rt agents (uuidsDrawn s) works"
  have dp: "delegateParallel rt pick agents works s = (Ok ?rs, s1)"
    using res pa by (simp add: delegateParallel_def st)
  have each: "fst (delegate rt agents (works ! i)
                       (s \<lparr> uuidsDrawn := uuidsDrawn s
                            + length (filter (routedToSpark agents) (take i works)) \<rparr>))
                  = Ok (?rs ! i)" if "i < length works" for i
  proof -
    let ?k = "uuidsDrawn s + length (filter (routedToSpark agents) (take i works))"
    have "handlersReturn (s \<lparr> uuidsDrawn := ?k \<rparr>)"
      using assms by (simp add: handlersReturn_def)
    from delegate_value [OF this, of rt agents "works ! i"] show ?thesis
      by (simp add: parallelValues_nth [OF that])
  qed
  show ?thesis using dp each by (intro exI [of _ ?rs] exI [of _ s1]) simp
qed

theorem delegateParallel_results_in_order_witness:
  "handlersReturn (emptyState ())
   \<and> (\<exists>rs s1. delegateParallel rtEcho (\<lambda>s. 0) sparkRegistry [workNoMatch, workCode]
                 (emptyState ()) = (Ok rs, s1)
         \<and> length rs = length [workNoMatch, workCode]
         \<and> fst (delegate rtEcho sparkRegistry ([workNoMatch, workCode] ! 1)
                  (emptyState () \<lparr> uuidsDrawn := uuidsDrawn (emptyState ())
                     + length (filter (routedToSpark sparkRegistry)
                         (take 1 [workNoMatch, workCode])) \<rparr>))
             = Ok (rs ! 1))"
proof -
  have h: "handlersReturn (emptyState ())"
    by (simp add: handlersReturn_def emptyState_def)
  from delegateParallel_results_in_order [OF h, of rtEcho "\<lambda>s. 0" sparkRegistry
      "[workNoMatch, workCode]"]
  obtain rs s1 where
    a: "delegateParallel rtEcho (\<lambda>s. 0) sparkRegistry [workNoMatch, workCode]
          (emptyState ()) = (Ok rs, s1)"
    and b: "length rs = length [workNoMatch, workCode]"
    and c: "\<forall>i < length [workNoMatch, workCode].
                fst (delegate rtEcho sparkRegistry ([workNoMatch, workCode] ! i)
                       (emptyState () \<lparr> uuidsDrawn := uuidsDrawn (emptyState ())
                            + length (filter (routedToSpark sparkRegistry)
                                (take i [workNoMatch, workCode])) \<rparr>))
                  = Ok (rs ! i)"
    by blast
  have "(1::nat) < length [workNoMatch, workCode]" by simp
  from c [rule_format, OF this] a b h show ?thesis by blast
qed

section \<open>Properties of the planner adapter\<close>

lemma promiseAll_settled:
  "firstRejected ps = None \<Longrightarrow> waitingIndices ps = [] \<Longrightarrow>
   promiseAll resume pick ps s = (Ok (fulfilledValues ps), s)"
  by (subst promiseAll.simps) simp

text \<open>
  Claim C6 does not hold of the code for delegated actions. On a plan whose only action
  targets a subagent, with the Spark agent registered and its backend answering, the
  planner creates the plan task and the child task (with the plan task as parent),
  starts the child and finishes it at once with the marker \<open>subagent_pending\<close>: the store
  holds these two tasks only and both are completed. Delegating the work item of the same
  action creates and completes a task of the Spark agent, which the planner never does.
\<close>

theorem subagent_action_finished_without_delegation:
  "map (\<lambda>kt. (task_name (snd kt), parentId (snd kt), status (snd kt), result (snd kt)))
       (tasks (snd (plan_execute rtEcho pick subagentPlan (emptyState ()))))
     = [(''Test Plan'', None, Completed, JObj [(''status'', JStr ''completed'')]),
        (''Checkout'', Some ''uuid-0'', Completed,
           JObj [(''status'', JStr ''subagent_pending'')])]
   \<and> map (\<lambda>kt. (task_name (snd kt), status (snd kt)))
       (tasks (snd (delegate rtEcho sparkRegistry checkoutWork (emptyState ()))))
     = [(''Spark: Checkout'', Completed)]"
proof -
  have fbm: "findBestMatch [JStr ''code'', JStr ''testing''] sparkRegistry
      = Some sparkAgentConfig"
    by (simp add: findBestMatch_def registry_values_def sparkRegistry_def register_def
        score_def sparkAgentConfig_def)
  have a: "map (\<lambda>kt. (task_name (snd kt), parentId (snd kt), status (snd kt), result (snd kt)))
       (tasks (snd (plan_execute rtEcho pick subagentPlan (emptyState ()))))
     = [(''Test Plan'', None, Completed, JObj [(''status'', JStr ''completed'')]),
        (''Checkout'', Some ''uuid-0'', Completed,
           JObj [(''status'', JStr ''subagent_pending'')])]"
    by (simp add: plan_execute_def groupByOrder_def orderOf_def executeAction_begin_def
        executeSubagentAction_def
        promiseAll_settled waitingIndices_def checkoutAction_def subagentPlan_def
        taskTypeOf_def rtEcho_def rt0_def create_def start_def finish_def
        emitAndReturn_def emit_def emptyState_def Let_def show_nat_digit)
  have b: "map (\<lambda>kt. (task_name (snd kt), status (snd kt)))
       (tasks (snd (delegate rtEcho sparkRegistry checkoutWork (emptyState ()))))
     = [(''Spark: Checkout'', Completed)]"
    by (simp add: delegate_def delegate_begin_def fbm checkoutWork_def
        execute_begin_def execute_resume_def execute_try_def awaitResult_def
        successResult_def sparkRequest_def sparkAgentConfig_def rtEcho_def rt0_def
        echoFetch_def create_def start_def finish_def emitAndReturn_def emit_def
        emptyState_def Let_def show_nat_digit)
  show ?thesis using a b by simp
qed
lemma groupByOrder_loop_map_of:
  "distinct (map fst G) \<Longrightarrow>
   distinct (map fst (groupByOrder_loop acts G))
   \<and> (\<forall>k. map_of (groupByOrder_loop acts G) k =
          (case map_of G k of
             None \<Rightarrow> (if filter (\<lambda>a. orderOf a = k) acts = [] then None
                       else Some (filter (\<lambda>a. orderOf a = k) acts))
           | Some g \<Rightarrow> Some (g @ filter (\<lambda>a. orderOf a = k) acts)))"
proof (induction acts arbitrary: G)
  case Nil
  then show ?case by (simp split: option.splits)
next
  case (Cons a acts)
  let ?ord = "orderOf a"
  let ?grp = "case map_of G ?ord of None \<Rightarrow> [] | Some g \<Rightarrow> g"
  let ?G = "AList.update ?ord (?grp @ [a]) G"
  have d: "distinct (map fst ?G)" using Cons.prems by (rule distinct_update)
  have step: "groupByOrder_loop (a # acts) G = groupByOrder_loop acts ?G"
    by (simp add: Let_def)
  have m: "map_of ?G k = (if k = ?ord then Some (?grp @ [a]) else map_of G k)" for k
    by (simp add: update_conv')
  from Cons.IH [OF d] have dist: "distinct (map fst (groupByOrder_loop acts ?G))"
    and ih: "\<And>k. map_of (groupByOrder_loop acts ?G) k =
          (case map_of ?G k of
             None \<Rightarrow> (if filter (\<lambda>a. orderOf a = k) acts = [] then None
                       else Some (filter (\<lambda>a. orderOf a = k) acts))
           | Some g \<Rightarrow> Some (g @ filter (\<lambda>a. orderOf a = k) acts))"
    by blast+
  have "map_of (groupByOrder_loop (a # acts) G) k =
          (case map_of G k of
             None \<Rightarrow> (if filter (\<lambda>a. orderOf a = k) (a # acts) = [] then None
                       else Some (filter (\<lambda>a. orderOf a = k) (a # acts)))
           | Some g \<Rightarrow> Some (g @ filter (\<lambda>a. orderOf a = k) (a # acts)))" for k
  proof (cases "k = ?ord")
    case True
    then show ?thesis unfolding step ih m by (simp split: option.splits)
  next
    case False
    then show ?thesis unfolding step ih m by (simp split: option.splits)
  qed
  then show ?case using dist step by simp
qed

lemma alist_values_by_key:
  "distinct (map fst xs) \<Longrightarrow> map snd xs = map (\<lambda>k. the (map_of xs k)) (map fst xs)"
proof (induction xs)
  case Nil
  show ?case by simp
next
  case (Cons x xs)
  obtain k v where x: "x = (k, v)" by (cases x)
  have notin: "k \<notin> fst ` set xs" and d: "distinct (map fst xs)"
    using Cons.prems by (simp_all add: x)
  have "map (\<lambda>j. the (map_of (x # xs) j)) (map fst xs)
      = map (\<lambda>j. the (map_of xs j)) (map fst xs)"
  proof (rule map_cong [OF refl])
    fix j assume "j \<in> set (map fst xs)"
    then have "j \<noteq> k" using notin by auto
    then show "the (map_of (x # xs) j) = the (map_of xs j)" by (simp add: x)
  qed
  then show ?case using Cons.IH [OF d] by (simp add: x)
qed
text \<open>
  \<open>groupByOrder\<close>: the buckets are those of the orders that occur, in ascending order of
  the order, and the bucket of an order holds the actions with that order (an absent
  order being 0), in the order of the plan.
\<close>

lemma groupByOrder_buckets:
  "groupByOrder acts =
     map (\<lambda>k. filter (\<lambda>a. orderOf a = k) acts) (sorted_list_of_set (orderOf ` set acts))"
proof -
  let ?R = "groupByOrder_loop acts []"
  let ?S = "sort_key fst ?R"
  from groupByOrder_loop_map_of [of "[]" acts] have dist: "distinct (map fst ?R)"
    and mo: "\<And>k. map_of ?R k = (if filter (\<lambda>a. orderOf a = k) acts = [] then None
                       else Some (filter (\<lambda>a. orderOf a = k) acts))"
    by simp_all
  have keys: "set (map fst ?R) = orderOf ` set acts"
  proof -
    have "set (map fst ?R) = dom (map_of ?R)" by (simp add: dom_map_of_conv_image_fst)
    also have "\<dots> = {k. filter (\<lambda>a. orderOf a = k) acts \<noteq> []}"
      by (auto simp: dom_def mo)
    also have "\<dots> = orderOf ` set acts"
      by (auto simp: filter_empty_conv)
    finally show ?thesis .
  qed
  have dS: "distinct (map fst ?S)"
  proof -
    have "distinct ?S" using dist by (simp add: distinct_map)
    moreover have "inj_on fst (set ?S)" using dist by (simp add: distinct_map)
    ultimately show ?thesis by (simp add: distinct_map)
  qed
  have sS: "sorted (map fst ?S)" by (rule sorted_sort_key)
  have kS: "set (map fst ?S) = orderOf ` set acts" using keys by simp
  have "map fst ?S = sorted_list_of_set (orderOf ` set acts)"
    by (rule sorted_distinct_set_unique [OF sS dS]) (insert keys, simp_all)
  moreover have "map_of ?S = map_of ?R"
    by (rule map_of_inject_set [THEN iffD2, OF dS dist]) simp
  ultimately have "map snd ?S = map (\<lambda>k. the (map_of ?R k))
      (sorted_list_of_set (orderOf ` set acts))"
    using alist_values_by_key [OF dS] by simp
  also have "\<dots> = map (\<lambda>k. filter (\<lambda>a. orderOf a = k) acts)
      (sorted_list_of_set (orderOf ` set acts))"
    by (rule map_cong) (auto simp: mo filter_empty_conv)
  finally show ?thesis by (simp add: groupByOrder_def)
qed
lemma create_then_start:
  assumes h: "handlersReturn s"
    and fresh: "randomUUID rt (uuidsDrawn s) \<notin> fst ` set (tasks s)"
  shows "\<exists>t0 s1 v s2. create rt init s = (Ok t0, s1)
          \<and> start rt (task_id t0) s1 = (Ok v, s2)
          \<and> task_id t0 = randomUUID rt (uuidsDrawn s)
          \<and> parentId t0 = init_parentId init \<and> task_metadata t0 = init_metadata init
          \<and> tasks s2 = tasks s @ [(randomUUID rt (uuidsDrawn s),
                t0 \<lparr> status := Running, startedAt := Some (dateNow rt (Suc (clockReads s))) \<rparr>)]
          \<and> eventHandlers s2 = eventHandlers s \<and> uuidsDrawn s2 = Suc (uuidsDrawn s)"
proof -
  let ?id = "randomUUID rt (uuidsDrawn s)"
  obtain r1 s1 where c: "create rt init s = (r1, s1)" by (cases "create rt init s")
  then have s1: "s1 = snd (create rt init s)" and r1': "r1 = fst (create rt init s)" by simp_all
  obtain t0 where r1: "r1 = Ok t0" and t0: "task_id t0 = ?id"
    "parentId t0 = init_parentId init" "task_metadata t0 = init_metadata init"
    using create_return [OF h, of rt init] r1' by simp
  have ts1: "tasks s1 = tasks s @ [(?id, t0)]"
    using create_return [OF h, of rt init] r1' r1 fresh
    by (simp add: s1 update_fresh)
  have h1: "handlersReturn s1" using h by (simp add: s1)
  have m1: "map_of (tasks s1) ?id = Some t0" unfolding ts1 by (rule map_of_last [OF fresh])
  obtain r2 s2 where st: "start rt ?id s1 = (r2, s2)" by (cases "start rt ?id s1")
  then have s2: "s2 = snd (start rt ?id s1)" and r2': "r2 = fst (start rt ?id s1)" by simp_all
  have "\<exists>v. r2 = Ok v" using start_return [OF h1, of rt ?id] r2' by simp
  then obtain v where r2: "r2 = Ok v" by blast
  have cr: "clockReads s1 = Suc (clockReads s)" by (simp add: s1)
  have "tasks s2 = AList.update ?id (t0 \<lparr> status := Running,
      startedAt := Some (dateNow rt (Suc (clockReads s))) \<rparr>) (tasks s1)"
    by (simp add: s2 mutator_tasks m1 cr [symmetric])
  then have ts2: "tasks s2 = tasks s @ [(?id, t0 \<lparr> status := Running,
      startedAt := Some (dateNow rt (Suc (clockReads s))) \<rparr>)]"
    unfolding ts1 by (simp only: update_last [OF fresh])
  have "eventHandlers s2 = eventHandlers s" "uuidsDrawn s2 = Suc (uuidsDrawn s)"
    by (simp_all add: s2 s1)
  then show ?thesis using c r1 st r2 t0 ts2 by simp
qed

lemma skeleton_last:
  "tasks s1 = tasks s @ [(k, t)] \<Longrightarrow>
   skeleton s1 = skeleton s @ [(k, parentId t, task_metadata t)]"
  by (simp add: skeleton_def)

lemma skeleton_update:
  "map_of al k = Some t \<Longrightarrow> parentId t1 = parentId t \<Longrightarrow> task_metadata t1 = task_metadata t
   \<Longrightarrow> map (\<lambda>kt. (fst kt, parentId (snd kt), task_metadata (snd kt))) (AList.update k t1 al)
     = map (\<lambda>kt. (fst kt, parentId (snd kt), task_metadata (snd kt))) al"
  by (induction al) (auto split: if_splits)

lemma skeleton_mutators [simp]:
  "skeleton (snd (start rt taskId s)) = skeleton s"
  "skeleton (snd (finish rt taskId res s)) = skeleton s"
  "skeleton (snd (taskError rt taskId err s)) = skeleton s"
  by (simp_all add: skeleton_def mutator_tasks skeleton_update split: option.splits)

lemma getTask_mutators_other:
  "k \<noteq> taskId \<Longrightarrow> getTask k (snd (start rt taskId s)) = getTask k s"
  "k \<noteq> taskId \<Longrightarrow> getTask k (snd (finish rt taskId res s)) = getTask k s"
  "k \<noteq> taskId \<Longrightarrow> getTask k (snd (taskError rt taskId err s)) = getTask k s"
  by (simp_all add: getTask_def mutator_tasks update_conv' split: option.splits)

lemma uuidsFresh_kept:
  "tasks s1 = tasks s \<or> map fst (tasks s1) = map fst (tasks s) \<Longrightarrow>
   uuidsDrawn s1 = uuidsDrawn s \<Longrightarrow> uuidsFresh rt s1 = uuidsFresh rt s"
proof -
  assume a: "tasks s1 = tasks s \<or> map fst (tasks s1) = map fst (tasks s)"
    and u: "uuidsDrawn s1 = uuidsDrawn s"
  have "map fst (tasks s1) = map fst (tasks s)" using a by auto
  then have "fst ` set (tasks s1) = fst ` set (tasks s)" by (metis list.set_map)
  then show ?thesis using u by (simp add: uuidsFresh_def)
qed

lemma uuidsFresh_mutators [simp]:
  "uuidsFresh rt (snd (start rt1 taskId s)) = uuidsFresh rt s"
  "uuidsFresh rt (snd (finish rt1 taskId res s)) = uuidsFresh rt s"
  "uuidsFresh rt (snd (taskError rt1 taskId err s)) = uuidsFresh rt s"
  by (rule uuidsFresh_kept; simp)+

lemma uuidsFresh_drawn:
  assumes "uuidsFresh rt s"
    and "map fst (tasks s1) = map fst (tasks s) @ [randomUUID rt (uuidsDrawn s)]"
    and "uuidsDrawn s1 = Suc (uuidsDrawn s)"
  shows "uuidsFresh rt s1"
proof -
  have inj: "inj (randomUUID rt)" using assms(1) by (simp add: uuidsFresh_def)
  have keys: "fst ` set (tasks s1) = insert (randomUUID rt (uuidsDrawn s)) (fst ` set (tasks s))"
  proof -
    have "set (map fst (tasks s1)) = set (map fst (tasks s) @ [randomUUID rt (uuidsDrawn s)])"
      using assms(2) by simp
    then show ?thesis by simp
  qed
  have "randomUUID rt n \<notin> fst ` set (tasks s1)" if "uuidsDrawn s1 \<le> n" for n
  proof -
    have n: "uuidsDrawn s \<le> n" "n \<noteq> uuidsDrawn s" using that assms(3) by simp_all
    have "randomUUID rt n \<noteq> randomUUID rt (uuidsDrawn s)"
      using inj n(2) by (simp add: inj_eq)
    moreover have "randomUUID rt n \<notin> fst ` set (tasks s)"
      using assms(1) n(1) by (simp add: uuidsFresh_def)
    ultimately show ?thesis by (simp add: keys)
  qed
  then show ?thesis using inj by (simp add: uuidsFresh_def)
qed
lemma map_of_append_other: "k \<noteq> j \<Longrightarrow> map_of (al @ [(j, t)]) k = map_of al k"
  by (induction al) auto

lemma executeAction_begin_ok:
  assumes h: "handlersReturn s" and fr: "uuidsFresh rt s"
  shows "\<exists>p s1. executeAction_begin rt pid a s = (p, s1)
     \<and> handlersReturn s1 \<and> uuidsFresh rt s1 \<and> uuidsDrawn s1 = Suc (uuidsDrawn s)
     \<and> skeleton s1 = skeleton s @ childEntries rt pid (uuidsDrawn s) [a]
     \<and> (\<forall>k. k \<noteq> randomUUID rt (uuidsDrawn s) \<longrightarrow> getTask k s1 = getTask k s)
     \<and> (if target_type (target a) = McpTarget
         then \<exists>t. p = Waiting (a, t) \<and> task_id t = randomUUID rt (uuidsDrawn s)
         else p = Fulfilled ())"
proof -
  let ?id = "randomUUID rt (uuidsDrawn s)"
  let ?init = "\<lparr> init_name = action_name a,
               init_description = Some (action_description a),
               init_type = taskTypeOf (target_type (target a)),
               init_parentId = Some pid,
               init_metadata = Some [(''actionId'', JStr (action_id a))],
               init_result = JUndefined, init_error = None,
               init_startedAt = None, init_completedAt = None \<rparr>"
  have fresh: "?id \<notin> fst ` set (tasks s)" using fr by (simp add: uuidsFresh_def)
  from create_then_start [OF h fresh, of ?init] obtain t0 s1 v s2 where
    c: "create rt ?init s = (Ok t0, s1)" and st: "start rt (task_id t0) s1 = (Ok v, s2)"
    and t0: "task_id t0 = ?id" "parentId t0 = Some pid"
      "task_metadata t0 = Some [(''actionId'', JStr (action_id a))]"
    and ts2: "tasks s2 = tasks s @ [(?id, t0 \<lparr> status := Running,
        startedAt := Some (dateNow rt (Suc (clockReads s))) \<rparr>)]"
    and h2': "eventHandlers s2 = eventHandlers s" and u2: "uuidsDrawn s2 = Suc (uuidsDrawn s)"
    by auto
  have h2: "handlersReturn s2" using h h2' by (simp add: handlersReturn_def)
  have sk2: "skeleton s2 = skeleton s @ childEntries rt pid (uuidsDrawn s) [a]"
    using skeleton_last [OF ts2] t0 by simp
  have fr2: "uuidsFresh rt s2"
    by (rule uuidsFresh_drawn [OF fr _ u2]) (simp add: ts2)
  have g2: "getTask k s2 = getTask k s" if "k \<noteq> ?id" for k
    unfolding getTask_def ts2 by (rule map_of_append_other [OF that])
  show ?thesis
  proof (cases "target_type (target a)")
    case McpTarget
    have "executeAction_begin rt pid a s = (Waiting (a, t0), s2)"
      unfolding executeAction_begin_def c by (simp add: st McpTarget)
    then show ?thesis using h2 fr2 u2 sk2 g2 t0 McpTarget by simp
  next
    case SubagentTarget
    let ?m = "JObj [(''status'', JStr ''subagent_pending'')]"
    obtain q s3 where f: "finish rt (task_id t0) ?m s2 = (q, s3)"
      by (cases "finish rt (task_id t0) ?m s2")
    then have s3: "s3 = snd (finish rt (task_id t0) ?m s2)" by simp
    have "\<exists>x. q = Ok x" using finish_return [OF h2, of rt "task_id t0" ?m] f by simp
    then obtain x where q: "q = Ok x" by blast
    have "executeAction_begin rt pid a s = (Fulfilled (), s3)"
      unfolding executeAction_begin_def c
      by (simp add: st SubagentTarget executeSubagentAction_def f q)
    moreover have "handlersReturn s3" "uuidsFresh rt s3" "uuidsDrawn s3 = Suc (uuidsDrawn s)"
      "skeleton s3 = skeleton s @ childEntries rt pid (uuidsDrawn s) [a]"
      using h2 fr2 u2 sk2 by (simp_all add: s3)
    moreover have "getTask k s3 = getTask k s" if "k \<noteq> ?id" for k
      using that g2 [OF that] by (simp add: s3 t0 getTask_mutators_other)
    ultimately show ?thesis using SubagentTarget by simp
  qed
qed

lemma executeAction_resume_ok:
  assumes h: "handlersReturn s"
  shows "fst (executeAction_resume rt (a, t) s)
           = (if mcp_success (mcpExecuteAction rt (toMCPAction a)) then Ok ()
              else Throw (Error (case mcp_error (mcpExecuteAction rt (toMCPAction a)) of
                     None \<Rightarrow> [] | Some m \<Rightarrow> m)))
       \<and> handlersReturn (snd (executeAction_resume rt (a, t) s))
       \<and> uuidsFresh rt1 (snd (executeAction_resume rt (a, t) s)) = uuidsFresh rt1 s
       \<and> uuidsDrawn (snd (executeAction_resume rt (a, t) s)) = uuidsDrawn s
       \<and> skeleton (snd (executeAction_resume rt (a, t) s)) = skeleton s
       \<and> (\<forall>k. k \<noteq> task_id t \<longrightarrow>
             getTask k (snd (executeAction_resume rt (a, t) s)) = getTask k s)"
proof (cases "mcp_success (mcpExecuteAction rt (toMCPAction a))")
  case True
  let ?d = "mcp_data (mcpExecuteAction rt (toMCPAction a))"
  obtain q s1 where f: "finish rt (task_id t) ?d s = (q, s1)"
    by (cases "finish rt (task_id t) ?d s")
  then have s1: "s1 = snd (finish rt (task_id t) ?d s)" by simp
  have "\<exists>x. q = Ok x" using finish_return [OF h, of rt "task_id t" ?d] f by simp
  then obtain x where q: "q = Ok x" by blast
  have "executeAction_resume rt (a, t) s = (Ok (), s1)"
    by (simp add: executeAction_resume_def Let_def True f q)
  then show ?thesis using h True by (simp add: s1 getTask_mutators_other)
next
  case False
  let ?e = "Error (case mcp_error (mcpExecuteAction rt (toMCPAction a)) of
                     None \<Rightarrow> [] | Some m \<Rightarrow> m)"
  let ?msg = "case mcp_error (mcpExecuteAction rt (toMCPAction a)) of
                     None \<Rightarrow> [] | Some m \<Rightarrow> m"
  obtain q s1 where f: "taskError rt (task_id t) ?msg s = (q, s1)"
    by (cases "taskError rt (task_id t) ?msg s")
  then have s1: "s1 = snd (taskError rt (task_id t) ?msg s)" by simp
  have "\<exists>x. q = Ok x" using taskError_return [OF h, of rt "task_id t" ?msg] f by simp
  then obtain x where q: "q = Ok x" by blast
  have "executeAction_resume rt (a, t) s = (Throw ?e, s1)"
    by (simp add: executeAction_resume_def executeAction_catch_def Let_def False f q)
  then show ?thesis using h False by (simp add: s1 getTask_mutators_other)
qed
lemma childEntries_append:
  "childEntries rt pid k (xs @ ys)
     = childEntries rt pid k xs @ childEntries rt pid (k + length xs) ys"
  by (induction xs arbitrary: k) simp_all

lemma startAll_group:
  assumes "handlersReturn s" and "uuidsFresh rt s"
  shows "\<exists>ps s1. startAll (executeAction_begin rt pid) grp s = (ps, s1)
     \<and> handlersReturn s1 \<and> uuidsFresh rt s1 \<and> uuidsDrawn s1 = uuidsDrawn s + length grp
     \<and> skeleton s1 = skeleton s @ childEntries rt pid (uuidsDrawn s) grp
     \<and> (\<forall>k. (\<forall>n \<ge> uuidsDrawn s. k \<noteq> randomUUID rt n) \<longrightarrow> getTask k s1 = getTask k s)
     \<and> (\<forall>e. Rejected e \<notin> set ps)
     \<and> (\<forall>a t. Waiting (a, t) \<in> set ps \<longrightarrow>
            a \<in> set grp \<and> target_type (target a) = McpTarget
          \<and> (\<exists>n \<ge> uuidsDrawn s. task_id t = randomUUID rt n))
     \<and> (\<forall>a \<in> set grp. target_type (target a) = McpTarget \<longrightarrow> (\<exists>t. Waiting (a, t) \<in> set ps))"
  using assms
proof (induction grp arbitrary: s)
  case Nil
  then show ?case by simp
next
  case (Cons a grp)
  from executeAction_begin_ok [OF Cons.prems, of pid a] obtain p s1 where
    b: "executeAction_begin rt pid a s = (p, s1)"
    and h1: "handlersReturn s1" and f1: "uuidsFresh rt s1"
    and u1: "uuidsDrawn s1 = Suc (uuidsDrawn s)"
    and sk1: "skeleton s1 = skeleton s @ childEntries rt pid (uuidsDrawn s) [a]"
    and g1: "\<forall>k. k \<noteq> randomUUID rt (uuidsDrawn s) \<longrightarrow> getTask k s1 = getTask k s"
    and p: "if target_type (target a) = McpTarget
         then \<exists>t. p = Waiting (a, t) \<and> task_id t = randomUUID rt (uuidsDrawn s)
         else p = Fulfilled ()"
    by blast
  from Cons.IH [OF h1 f1] obtain ps s2 where
    r: "startAll (executeAction_begin rt pid) grp s1 = (ps, s2)"
    and h2: "handlersReturn s2" and f2: "uuidsFresh rt s2"
    and u2: "uuidsDrawn s2 = uuidsDrawn s1 + length grp"
    and sk2: "skeleton s2 = skeleton s1 @ childEntries rt pid (uuidsDrawn s1) grp"
    and g2: "\<forall>k. (\<forall>n \<ge> uuidsDrawn s1. k \<noteq> randomUUID rt n) \<longrightarrow> getTask k s2 = getTask k s1"
    and nr: "\<forall>e. Rejected e \<notin> set ps"
    and w2: "\<forall>a t. Waiting (a, t) \<in> set ps \<longrightarrow>
            a \<in> set grp \<and> target_type (target a) = McpTarget
          \<and> (\<exists>n \<ge> uuidsDrawn s1. task_id t = randomUUID rt n)"
    and m2: "\<forall>a \<in> set grp. target_type (target a) = McpTarget \<longrightarrow> (\<exists>t. Waiting (a, t) \<in> set ps)"
    by blast
  have run: "startAll (executeAction_begin rt pid) (a # grp) s = (p # ps, s2)"
    by (simp add: b r)
  have u: "uuidsDrawn s2 = uuidsDrawn s + length (a # grp)" using u1 u2 by simp
  have sk: "skeleton s2 = skeleton s @ childEntries rt pid (uuidsDrawn s) (a # grp)"
    using sk1 sk2 u1 by simp
  have g: "getTask k s2 = getTask k s" if "\<forall>n \<ge> uuidsDrawn s. k \<noteq> randomUUID rt n" for k
  proof -
    have "\<forall>n \<ge> uuidsDrawn s1. k \<noteq> randomUUID rt n" using that u1 by simp
    then have "getTask k s2 = getTask k s1" using g2 by blast
    moreover have "k \<noteq> randomUUID rt (uuidsDrawn s)" using that by simp
    ultimately show ?thesis using g1 by simp
  qed
  have nrp: "\<forall>e. p \<noteq> Rejected e" using p by (auto split: if_splits)
  have w: "a' \<in> set (a # grp) \<and> target_type (target a') = McpTarget
          \<and> (\<exists>n \<ge> uuidsDrawn s. task_id t = randomUUID rt n)"
    if "Waiting (a', t) \<in> set (p # ps)" for a' t
  proof (cases "Waiting (a', t) = p")
    case True
    then show ?thesis using p by (auto split: if_splits)
  next
    case False
    then have "Waiting (a', t) \<in> set ps" using that by simp
    then have "a' \<in> set grp \<and> target_type (target a') = McpTarget
          \<and> (\<exists>n \<ge> uuidsDrawn s1. task_id t = randomUUID rt n)" using w2 by blast
    then show ?thesis using u1 by (auto intro: Suc_leD)
  qed
  have m: "\<exists>t. Waiting (a', t) \<in> set (p # ps)"
    if "a' \<in> set (a # grp)" "target_type (target a') = McpTarget" for a'
  proof (cases "a' = a")
    case True
    then show ?thesis using p that(2) by auto
  next
    case False
    then have "a' \<in> set grp" using that(1) by simp
    then show ?thesis using m2 that(2) by auto
  qed
  show ?case using run h2 f2 u sk g nrp nr w m
    by (intro exI [of _ "p # ps"] exI [of _ s2]) auto
qed
text \<open>
  One bucket: every action of the bucket gets its child task; the wait fulfils when no
  action of the bucket fails and rejects otherwise; the plan task is not touched.
\<close>

lemma bucket_outcome:
  fixes s :: "'w state"
  assumes h: "handlersReturn s" and fr: "uuidsFresh rt s"
    and par: "getTask pid s = Some parent"
    and old: "\<forall>n \<ge> uuidsDrawn s. pid \<noteq> randomUUID rt n"
  shows "\<exists>r s2. (case startAll (executeAction_begin rt pid) grp s of
                   (ps, s1) \<Rightarrow> promiseAll (executeAction_resume rt) pick ps s1) = (r, s2)
     \<and> handlersReturn s2 \<and> uuidsFresh rt s2 \<and> uuidsDrawn s2 = uuidsDrawn s + length grp
     \<and> skeleton s2 = skeleton s @ childEntries rt pid (uuidsDrawn s) grp
     \<and> getTask pid s2 = Some parent
     \<and> (if list_ex (actionFails rt) grp then \<exists>e. r = Throw e else \<exists>vs. r = Ok vs)"
proof -
  from startAll_group [OF h fr, of pid grp] obtain ps s1 where
    st: "startAll (executeAction_begin rt pid) grp s = (ps, s1)"
    and h1: "handlersReturn s1" and f1: "uuidsFresh rt s1"
    and u1: "uuidsDrawn s1 = uuidsDrawn s + length grp"
    and sk1: "skeleton s1 = skeleton s @ childEntries rt pid (uuidsDrawn s) grp"
    and g1: "\<forall>k. (\<forall>n \<ge> uuidsDrawn s. k \<noteq> randomUUID rt n) \<longrightarrow> getTask k s1 = getTask k s"
    and nr: "\<forall>e. Rejected e \<notin> set ps"
    and w: "\<forall>a t. Waiting (a, t) \<in> set ps \<longrightarrow>
            a \<in> set grp \<and> target_type (target a) = McpTarget
          \<and> (\<exists>n \<ge> uuidsDrawn s. task_id t = randomUUID rt n)"
    and m: "\<forall>a \<in> set grp. target_type (target a) = McpTarget \<longrightarrow> (\<exists>t. Waiting (a, t) \<in> set ps)"
    by blast
  have p1: "getTask pid s1 = Some parent" using g1 old par by simp
  define P where "P = (\<lambda>x :: 'w state. handlersReturn x \<and> uuidsFresh rt x
      \<and> uuidsDrawn x = uuidsDrawn s1 \<and> skeleton x = skeleton s1
      \<and> getTask pid x = Some parent)"
  define bad where "bad = (\<lambda>p :: PlanAction \<times> Task.
      \<not> mcp_success (mcpExecuteAction rt (toMCPAction (fst p))))"
  define err where "err = (\<lambda>p :: PlanAction \<times> Task.
      Error (case mcp_error (mcpExecuteAction rt (toMCPAction (fst p))) of
               None \<Rightarrow> [] | Some m \<Rightarrow> m))"
  have P1: "P s1" using h1 f1 p1 by (simp add: P_def)
  have keep: "P (snd (executeAction_resume rt p x))" if "Waiting p \<in> set ps" "P x" for p x
  proof -
    obtain a t where p: "p = (a, t)" by (cases p)
    have "task_id t \<noteq> pid" using w that(1) old p by metis
    then show ?thesis
      using executeAction_resume_ok [of x rt a t rt] that(2) by (simp add: P_def p)
  qed
  have val: "fst (executeAction_resume rt p x) = (if bad p then Throw (err p) else Ok ())"
    if "Waiting p \<in> set ps" "P x" for p x
  proof -
    obtain a t where p: "p = (a, t)" by (cases p)
    show ?thesis
      using executeAction_resume_ok [of x rt a t rt] that(2)
      by (simp add: P_def p bad_def err_def)
  qed
  obtain r s2 where pa: "promiseAll (executeAction_resume rt) pick ps s1 = (r, s2)"
    by (cases "promiseAll (executeAction_resume rt) pick ps s1")
  have "P (snd (promiseAll (executeAction_resume rt) pick ps s1))"
    by (rule promiseAll_invariant [where P = P, OF keep P1])
  then have P2: "P s2" using pa by simp
  have out: "if (\<exists>e. Rejected e \<in> set ps) \<or> (\<exists>p. Waiting p \<in> set ps \<and> bad p)
         then (\<exists>e \<in> UNIV. fst (promiseAll (executeAction_resume rt) pick ps s1) = Throw e)
         else fst (promiseAll (executeAction_resume rt) pick ps s1)
                = Ok (fulfilledValues (resolveWith (\<lambda>p. ()) ps))"
    by (rule promiseAll_outcome [where P = P and bad = bad and err = err, OF keep val P1])
       simp_all
  have fails: "(\<exists>p. Waiting p \<in> set ps \<and> bad p) = list_ex (actionFails rt) grp"
  proof
    assume "\<exists>p. Waiting p \<in> set ps \<and> bad p"
    then obtain a t where "Waiting (a, t) \<in> set ps" "bad (a, t)" by auto
    then have "a \<in> set grp" "actionFails rt a"
      using w by (auto simp: bad_def actionFails_def)
    then show "list_ex (actionFails rt) grp" by (auto simp: list_ex_iff)
  next
    assume "list_ex (actionFails rt) grp"
    then obtain a where a: "a \<in> set grp" "actionFails rt a" by (auto simp: list_ex_iff)
    then obtain t where "Waiting (a, t) \<in> set ps" using m by (auto simp: actionFails_def)
    moreover have "bad (a, t)" using a(2) by (simp add: bad_def actionFails_def)
    ultimately show "\<exists>p. Waiting p \<in> set ps \<and> bad p" by blast
  qed
  have res: "if list_ex (actionFails rt) grp then \<exists>e. r = Throw e else \<exists>vs. r = Ok vs"
    using out nr fails pa by (auto split: if_splits)
  show ?thesis
    using st pa P2 u1 sk1 res
    by (intro exI [of _ r] exI [of _ s2]) (simp add: P_def)
qed
lemma runGroups_outcome:
  fixes s :: "'w state"
  assumes "handlersReturn s" and "uuidsFresh rt s"
    and "getTask pid s = Some parent"
    and "\<forall>n \<ge> uuidsDrawn s. pid \<noteq> randomUUID rt n"
  shows "\<exists>r s1. runGroups rt pick pid groups s = (r, s1)
     \<and> handlersReturn s1
     \<and> skeleton s1 = skeleton s @ childEntries rt pid (uuidsDrawn s)
          (concat (take (Suc (length (takeWhile (\<lambda>g. \<not> list_ex (actionFails rt) g) groups)))
             groups))
     \<and> getTask pid s1 = Some parent
     \<and> (if list_all (\<lambda>g. \<not> list_ex (actionFails rt) g) groups then r = Ok ()
         else \<exists>e. r = Throw e)"
  using assms
proof (induction groups arbitrary: s)
  case Nil
  then show ?case by simp
next
  case (Cons g groups)
  from bucket_outcome [OF Cons.prems, where grp = g and pick = pick] obtain r s2 where
    b: "(case startAll (executeAction_begin rt pid) g s of
           (ps, s1) \<Rightarrow> promiseAll (executeAction_resume rt) pick ps s1) = (r, s2)"
    and h2: "handlersReturn s2" and f2: "uuidsFresh rt s2"
    and u2: "uuidsDrawn s2 = uuidsDrawn s + length g"
    and sk2: "skeleton s2 = skeleton s @ childEntries rt pid (uuidsDrawn s) g"
    and p2: "getTask pid s2 = Some parent"
    and res: "if list_ex (actionFails rt) g then \<exists>e. r = Throw e else \<exists>vs. r = Ok vs"
    by blast
  have step: "runGroups rt pick pid (g # groups) s =
      (case r of Throw e \<Rightarrow> (Throw e, s2) | Ok done \<Rightarrow> runGroups rt pick pid groups s2)"
    using b by (simp split: prod.splits res.splits)
  show ?case
  proof (cases "list_ex (actionFails rt) g")
    case True
    then obtain e where "r = Throw e" using res by auto
    then have "runGroups rt pick pid (g # groups) s = (Throw e, s2)" using step by simp
    then show ?thesis using True h2 sk2 p2 by simp
  next
    case False
    then obtain vs where "r = Ok vs" using res by auto
    then have run: "runGroups rt pick pid (g # groups) s = runGroups rt pick pid groups s2"
      using step by simp
    have old2: "\<forall>n \<ge> uuidsDrawn s2. pid \<noteq> randomUUID rt n"
      using Cons.prems(4) u2 by simp
    from Cons.IH [OF h2 f2 p2 old2] obtain r1 s3 where
      r1: "runGroups rt pick pid groups s2 = (r1, s3)"
      and h3: "handlersReturn s3"
      and sk3: "skeleton s3 = skeleton s2 @ childEntries rt pid (uuidsDrawn s2)
          (concat (take (Suc (length (takeWhile (\<lambda>g. \<not> list_ex (actionFails rt) g) groups)))
             groups))"
      and p3: "getTask pid s3 = Some parent"
      and res3: "if list_all (\<lambda>g. \<not> list_ex (actionFails rt) g) groups then r1 = Ok ()
         else \<exists>e. r1 = Throw e"
      by blast
    show ?thesis
      using run r1 h3 p3 res3 False sk3 sk2 u2
      by (intro exI [of _ r1] exI [of _ s3]) (simp add: childEntries_append)
  qed
qed

text \<open>
  Claim C5 fails as stated: with a handler that throws subscribed, the plan with no
  action has no failing bucket, yet \<open>execute\<close> raises from \<open>create\<close> and leaves the plan
  task pending.
\<close>

theorem plan_without_failing_bucket_not_completed_counterexample:
  "fst (plan_execute rt0 (\<lambda>s. 0) (subagentPlan \<lparr> actions := [] \<rparr>) throwingState)
     = Throw (Error ''handler failed'')
   \<and> map (\<lambda>kt. (task_name (snd kt), status (snd kt)))
       (tasks (snd (plan_execute rt0 (\<lambda>s. 0) (subagentPlan \<lparr> actions := [] \<rparr>)
          throwingState)))
     = [(''Test Plan'', Pending)]"
  by (simp add: plan_execute_def subagentPlan_def throwingState_def onEvent_def
      throwingHandler_def rt0_def create_def emitAndReturn_def emit_def emptyState_def
      Let_def show_nat_digit)

text \<open>
  Claim C5 as amended. The buckets of a plan are those of the orders that occur (an
  absent order counting as 0) in strictly ascending order, each holding the actions of
  its order. When every subscribed handler returns and the identifiers to be drawn are
  fresh, \<open>execute\<close> creates the plan task and then, bucket after bucket, one child task
  per action, up to and including the first bucket in which an action fails: no bucket
  after it is entered. If no bucket has a failing action the call returns and the plan
  task is completed; otherwise the call raises and the plan task is failed. This holds
  for every order in which the MCP client answers within a bucket.
\<close>

theorem plan_execute_buckets_ascending_fail_fast:
  fixes s :: "'w state"
  assumes "handlersReturn s" and "uuidsFresh rt s"
  shows "groupByOrder (actions plan) =
           map (\<lambda>k. filter (\<lambda>a. orderOf a = k) (actions plan))
             (sorted_list_of_set (orderOf ` set (actions plan)))
       \<and> (\<exists>r s1 parent.
             plan_execute rt pick plan s = (r, s1)
           \<and> skeleton s1 =
               skeleton s
               @ [(randomUUID rt (uuidsDrawn s), None,
                   Some [(''planId'', JStr (plan_id plan))])]
               @ childEntries rt (randomUUID rt (uuidsDrawn s)) (Suc (uuidsDrawn s))
                   (concat (take (Suc (length (takeWhile
                        (\<lambda>g. \<not> list_ex (actionFails rt) g) (groupByOrder (actions plan)))))
                      (groupByOrder (actions plan))))
           \<and> getTask (randomUUID rt (uuidsDrawn s)) s1 = Some parent
           \<and> (if list_all (\<lambda>g. \<not> list_ex (actionFails rt) g) (groupByOrder (actions plan))
               then r = Ok () \<and> status parent = Completed
               else (\<exists>e. r = Throw e) \<and> status parent = Failed))"
proof -
  let ?pid = "randomUUID rt (uuidsDrawn s)"
  let ?init = "\<lparr> init_name = plan_name plan,
               init_description = Some (plan_description plan),
               init_type = PlanTask,
               init_parentId = None,
               init_metadata = Some [(''planId'', JStr (plan_id plan))],
               init_result = JUndefined, init_error = None,
               init_startedAt = None, init_completedAt = None \<rparr>"
  let ?groups = "groupByOrder (actions plan)"
  let ?good = "\<lambda>g. \<not> list_ex (actionFails rt) g"
  have fresh: "?pid \<notin> fst ` set (tasks s)" using assms(2) by (simp add: uuidsFresh_def)
  have inj: "inj (randomUUID rt)" using assms(2) by (simp add: uuidsFresh_def)
  from create_then_start [OF assms(1) fresh, of ?init] obtain t0 s1 v s2 where
    c: "create rt ?init s = (Ok t0, s1)" and st: "start rt (task_id t0) s1 = (Ok v, s2)"
    and t0: "task_id t0 = ?pid" "parentId t0 = None"
      "task_metadata t0 = Some [(''planId'', JStr (plan_id plan))]"
    and ts2: "tasks s2 = tasks s @ [(?pid, t0 \<lparr> status := Running,
        startedAt := Some (dateNow rt (Suc (clockReads s))) \<rparr>)]"
    and h2': "eventHandlers s2 = eventHandlers s" and u2: "uuidsDrawn s2 = Suc (uuidsDrawn s)"
    by auto
  let ?par = "t0 \<lparr> status := Running, startedAt := Some (dateNow rt (Suc (clockReads s))) \<rparr>"
  have h2: "handlersReturn s2" using assms(1) h2' by (simp add: handlersReturn_def)
  have sk2: "skeleton s2 = skeleton s @ [(?pid, None, Some [(''planId'', JStr (plan_id plan))])]"
    using skeleton_last [OF ts2] t0 by simp
  have fr2: "uuidsFresh rt s2"
    by (rule uuidsFresh_drawn [OF assms(2) _ u2]) (simp add: ts2)
  have p2: "getTask ?pid s2 = Some ?par"
    unfolding getTask_def ts2 by (rule map_of_last [OF fresh])
  have old2: "\<forall>n \<ge> uuidsDrawn s2. ?pid \<noteq> randomUUID rt n"
    using inj u2 by (auto simp: inj_eq)
  from runGroups_outcome [OF h2 fr2 p2 old2, where pick = pick and groups = ?groups]
  obtain r3 s3 where
    rg: "runGroups rt pick ?pid ?groups s2 = (r3, s3)"
    and h3: "handlersReturn s3"
    and sk3: "skeleton s3 = skeleton s2 @ childEntries rt ?pid (uuidsDrawn s2)
          (concat (take (Suc (length (takeWhile ?good ?groups))) ?groups))"
    and p3: "getTask ?pid s3 = Some ?par"
    and res3: "if list_all ?good ?groups then r3 = Ok () else \<exists>e. r3 = Throw e"
    by blast
  have m3: "map_of (tasks s3) ?pid = Some ?par" using p3 by (simp add: getTask_def)
  have body: "plan_execute rt pick plan s =
      (case r3 of
         Throw e \<Rightarrow> plan_catch rt ?pid e s3
       | Ok u \<Rightarrow>
           (case finish rt ?pid (JObj [(''status'', JStr ''completed'')]) s3 of
              (Throw e, s4) \<Rightarrow> plan_catch rt ?pid e s4
            | (Ok finished, s4) \<Rightarrow> (Ok (), s4)))"
    unfolding plan_execute_def c prod.case res.case t0(1) st [unfolded t0(1)] rg
    by (cases r3) simp_all
  have sk: "skeleton s3 = skeleton s @ [(?pid, None, Some [(''planId'', JStr (plan_id plan))])]
      @ childEntries rt ?pid (Suc (uuidsDrawn s))
          (concat (take (Suc (length (takeWhile ?good ?groups))) ?groups))"
    using sk3 sk2 u2 by simp
  have main: "\<exists>r s1 parent.
             plan_execute rt pick plan s = (r, s1)
           \<and> skeleton s1 = skeleton s3
           \<and> getTask ?pid s1 = Some parent
           \<and> (if list_all ?good ?groups
               then r = Ok () \<and> status parent = Completed
               else (\<exists>e. r = Throw e) \<and> status parent = Failed)"
  proof (cases "list_all ?good ?groups")
    case True
    then have r3: "r3 = Ok ()" using res3 by simp
    let ?m = "JObj [(''status'', JStr ''completed'')]"
    obtain q s4 where f: "finish rt ?pid ?m s3 = (q, s4)" by (cases "finish rt ?pid ?m s3")
    then have s4: "s4 = snd (finish rt ?pid ?m s3)" by simp
    have "\<exists>x. q = Ok x" using finish_return [OF h3, of rt ?pid ?m] f by simp
    then obtain x where q: "q = Ok x" by blast
    have "plan_execute rt pick plan s = (Ok (), s4)" by (simp add: body r3 f q)
    moreover have "skeleton s4 = skeleton s3" by (simp add: s4)
    moreover have "getTask ?pid s4 = Some (?par \<lparr> status := Completed,
        completedAt := Some (dateNow rt (clockReads s3)), result := ?m \<rparr>)"
      by (simp add: getTask_def s4 mutator_tasks m3 update_conv')
    ultimately show ?thesis using True by simp
  next
    case False
    then obtain e where r3: "r3 = Throw e" using res3 by auto
    let ?m = "messageOr ''Plan execution failed'' e"
    obtain q s4 where f: "taskError rt ?pid ?m s3 = (q, s4)" by (cases "taskError rt ?pid ?m s3")
    then have s4: "s4 = snd (taskError rt ?pid ?m s3)" by simp
    have "\<exists>x. q = Ok x" using taskError_return [OF h3, of rt ?pid ?m] f by simp
    then obtain x where q: "q = Ok x" by blast
    have "plan_execute rt pick plan s = (Throw e, s4)"
      by (simp add: body r3 plan_catch_def f q)
    moreover have "skeleton s4 = skeleton s3" by (simp add: s4)
    moreover have "getTask ?pid s4 = Some (?par \<lparr> status := Failed,
        completedAt := Some (dateNow rt (clockReads s3)), error := Some ?m \<rparr>)"
      by (simp add: getTask_def s4 mutator_tasks m3 update_conv')
    ultimately show ?thesis using False by simp
  qed
  show ?thesis using groupByOrder_buckets [of "actions plan"] main sk by simp
qed
lemma orderedPlan_groups:
  "groupByOrder (actions orderedPlan) =
     [[mcpAction ''b'' (Some 0), mcpAction ''c'' None], [mcpAction ''d'' (Some 1)],
      [mcpAction ''a'' (Some 2)]]"
proof -
  have o: "orderOf (mcpAction i ord) = (case ord of None \<Rightarrow> 0 | Some n \<Rightarrow> n)" for i ord
    by (simp add: orderOf_def mcpAction_def)
  show ?thesis
    by (simp add: groupByOrder_def orderedPlan_def o Let_def)
qed

lemma uuidsFresh_rt0: "uuidsFresh rt0 (emptyState w)"
proof -
  have "inj (\<lambda>n. ''uuid-'' @ show_nat n)"
    by (rule injI) (simp add: show_nat_inj)
  then show ?thesis by (simp add: uuidsFresh_def rt0_def emptyState_def)
qed

theorem plan_execute_buckets_ascending_fail_fast_witness:
  "handlersReturn (emptyState ()) \<and> uuidsFresh rt0 (emptyState ())
   \<and> groupByOrder (actions orderedPlan) =
       [[mcpAction ''b'' (Some 0), mcpAction ''c'' None], [mcpAction ''d'' (Some 1)],
        [mcpAction ''a'' (Some 2)]]
   \<and> (\<exists>r s1 parent.
         plan_execute rt0 (\<lambda>s. 0) orderedPlan (emptyState ()) = (r, s1)
       \<and> skeleton s1 =
           [(''uuid-0'', None, Some [(''planId'', JStr ''plan-2'')]),
            (''uuid-1'', Some ''uuid-0'', Some [(''actionId'', JStr ''b'')]),
            (''uuid-2'', Some ''uuid-0'', Some [(''actionId'', JStr ''c'')])]
       \<and> getTask ''uuid-0'' s1 = Some parent
       \<and> (\<exists>e. r = Throw e) \<and> status parent = Failed)"
proof -
  have h1: "handlersReturn (emptyState ())"
    by (simp add: handlersReturn_def emptyState_def)
  have h2: "uuidsFresh rt0 (emptyState ())" by (rule uuidsFresh_rt0)
  have f: "actionFails rt0 (mcpAction i ord)" for i ord
    by (simp add: actionFails_def mcpAction_def rt0_def)
  have ids: "randomUUID rt0 0 = ''uuid-0''" "randomUUID rt0 (Suc 0) = ''uuid-1''"
    "randomUUID rt0 (Suc (Suc 0)) = ''uuid-2''"
    using show_nat_digit by (simp_all add: rt0_def numeral_2_eq_2 [symmetric])
  from plan_execute_buckets_ascending_fail_fast [OF h1 h2, where plan = orderedPlan
      and pick = "\<lambda>s. 0", THEN conjunct2]
  obtain r s1 parent where
    a: "plan_execute rt0 (\<lambda>s. 0) orderedPlan (emptyState ()) = (r, s1)"
    and b: "skeleton s1 =
               skeleton (emptyState ())
               @ [(randomUUID rt0 (uuidsDrawn (emptyState ())), None,
                   Some [(''planId'', JStr (plan_id orderedPlan))])]
               @ childEntries rt0 (randomUUID rt0 (uuidsDrawn (emptyState ())))
                   (Suc (uuidsDrawn (emptyState ())))
                   (concat (take (Suc (length (takeWhile
                        (\<lambda>g. \<not> list_ex (actionFails rt0) g)
                        (groupByOrder (actions orderedPlan)))))
                      (groupByOrder (actions orderedPlan))))"
    and c: "getTask (randomUUID rt0 (uuidsDrawn (emptyState ()))) s1 = Some parent"
    and d: "if list_all (\<lambda>g. \<not> list_ex (actionFails rt0) g)
                 (groupByOrder (actions orderedPlan))
            then r = Ok () \<and> status parent = Completed
            else (\<exists>e. r = Throw e) \<and> status parent = Failed"
    by blast
  have u0: "uuidsDrawn (emptyState ()) = 0" "skeleton (emptyState ()) = []"
    by (simp_all add: emptyState_def skeleton_def)
  have b': "skeleton s1 =
           [(''uuid-0'', None, Some [(''planId'', JStr ''plan-2'')]),
            (''uuid-1'', Some ''uuid-0'', Some [(''actionId'', JStr ''b'')]),
            (''uuid-2'', Some ''uuid-0'', Some [(''actionId'', JStr ''c'')])]"
    using b by (simp add: orderedPlan_groups f u0 ids) (simp add: orderedPlan_def mcpAction_def)
  have c': "getTask ''uuid-0'' s1 = Some parent" using c by (simp add: u0 ids)
  have d': "(\<exists>e. r = Throw e) \<and> status parent = Failed"
    using d by (simp add: orderedPlan_groups f)
  show ?thesis using h1 h2 orderedPlan_groups a b' c' d' by blast
qed

end
